theory Spec2Isabelle
  imports Complex_Main
begin

section \<open>pandas-ta: the indicator engine\<close>

text \<open>
  A shallow embedding of \<^verbatim>\<open>src/pandas_ta\<close>: the Super Smoother Filter
  (\<^verbatim>\<open>overlap/ssf.py\<close>), the volume weighted average price (\<^verbatim>\<open>overlap/vwap.py\<close>),
  the volume profile (\<^verbatim>\<open>volume/vp.py\<close>), linear regression (\<^verbatim>\<open>utils/_math.py\<close>)
  and the DataFrame extension (\<^verbatim>\<open>core.py\<close>).

  Conventions of the embedding.
  \<^item> A float is a \<^typ>\<open>real\<close>: arithmetic is exact, and \<^verbatim>\<open>numpy.pi\<close>, \<^verbatim>\<open>exp\<close>,
    \<^verbatim>\<open>cos\<close> and \<^verbatim>\<open>sqrt\<close> are the functions of analysis. A cell that may hold
    no finite number is a \<^typ>\<open>real option\<close>: \<open>None\<close> is \<^verbatim>\<open>NaN\<close> (in the
    quotient of \<^verbatim>\<open>vwap\<close> also an infinity, from a division by zero).
  \<^item> A Series is the list of its values in row order, its positions being the index;
    where the labels matter (the days of \<^verbatim>\<open>vwap\<close>, the alignment in \<^verbatim>\<open>core.py\<close>) the
    index is given too.
  \<^item> An exception is a value \<open>Inl e\<close> of a sum type, a returned value is \<open>Inr v\<close>;
    Python's \<^verbatim>\<open>None\<close> result is \<open>None\<close> of an option.
  \<^item> \<^verbatim>\<open>verify_series\<close> and \<^verbatim>\<open>get_offset\<close> live in
    \<^verbatim>\<open>pandas_ta/utils/_core.py\<close>, which is not among the sources. An indicator
    below takes the values these two calls returned: the verified Series and the
    integer offset.
\<close>

subsection \<open>Exceptions and positional access\<close>

datatype error = IndexError | AttributeError | KeyError | ValueError | TypeError | ReError

text \<open>
  \<^verbatim>\<open>s.iloc[i]\<close> for reading: a negative position counts from the end of the Series,
  and a position outside \<open>-n .. n-1\<close> raises \<^verbatim>\<open>IndexError\<close>.
\<close>

definition iloc :: "'a list \<Rightarrow> int \<Rightarrow> error + 'a" where
  "iloc s i =
     (if 0 \<le> i \<and> i < int (length s) then Inr (s ! nat i)
      else if i < 0 \<and> - int (length s) \<le> i then Inr (s ! nat (int (length s) + i))
      else Inl IndexError)"

text \<open>
  \<^verbatim>\<open>s.shift(k)\<close>: the values move \<open>k\<close> rows down (up when \<open>k\<close> is negative), the
  length stays, and the rows left empty hold \<^verbatim>\<open>NaN\<close>.
\<close>

definition shift :: "int \<Rightarrow> 'a option list \<Rightarrow> 'a option list" where
  "shift k s =
     (let n = length s; d = min (nat \<bar>k\<bar>) n
      in if 0 \<le> k then replicate d None @ take (n - d) s
         else drop d s @ replicate d None)"

subsection \<open>Super Smoother Filter (overlap/ssf.py)\<close>

text \<open>
  The two loops of \<^verbatim>\<open>ssf\<close>, over the positions \<^verbatim>\<open>range(0, m)\<close> given as a list.
  Each step reads \<^verbatim>\<open>close.iloc[i]\<close> and the buffer at \<^verbatim>\<open>i - 1\<close>, \<^verbatim>\<open>i - 2\<close>
  (and \<^verbatim>\<open>i - 3\<close>) through \<^const>\<open>iloc\<close>, then stores into \<^verbatim>\<open>ssf.iloc[i]\<close>.
\<close>

fun ssf_loop2 :: "real \<Rightarrow> real \<Rightarrow> real \<Rightarrow> real list \<Rightarrow> nat list \<Rightarrow> real list \<Rightarrow> error + real list" where
  "ssf_loop2 c1 b1 a1 close [] buf = Inr buf"
| "ssf_loop2 c1 b1 a1 close (i # rest) buf =
     (case iloc close (int i) of Inl e \<Rightarrow> Inl e | Inr x \<Rightarrow>
       (case iloc buf (int i - 1) of Inl e \<Rightarrow> Inl e | Inr p1 \<Rightarrow>
         (case iloc buf (int i - 2) of Inl e \<Rightarrow> Inl e | Inr p2 \<Rightarrow>
            ssf_loop2 c1 b1 a1 close rest (list_update buf i (c1 * x + b1 * p1 + a1 * p2)))))"

fun ssf_loop3 :: "real \<Rightarrow> real \<Rightarrow> real \<Rightarrow> real \<Rightarrow> real list \<Rightarrow> nat list \<Rightarrow> real list \<Rightarrow> error + real list" where
  "ssf_loop3 c1 c2 c3 c4 close [] buf = Inr buf"
| "ssf_loop3 c1 c2 c3 c4 close (i # rest) buf =
     (case iloc close (int i) of Inl e \<Rightarrow> Inl e | Inr x \<Rightarrow>
       (case iloc buf (int i - 1) of Inl e \<Rightarrow> Inl e | Inr p1 \<Rightarrow>
         (case iloc buf (int i - 2) of Inl e \<Rightarrow> Inl e | Inr p2 \<Rightarrow>
           (case iloc buf (int i - 3) of Inl e \<Rightarrow> Inl e | Inr p3 \<Rightarrow>
              ssf_loop3 c1 c2 c3 c4 close rest
                (list_update buf i (c1 * x + c2 * p1 + c3 * p2 + c4 * p3))))))"

text \<open>The coefficients of the two-pole and of the three-pole filter, from the length.\<close>

definition ssf_coeffs2 :: "int \<Rightarrow> real \<times> real \<times> real" where
  "ssf_coeffs2 len =
     (let x = pi * sqrt 2 / of_int len;
          a0 = exp (- x);
          a1 = - a0 * a0;
          b1 = 2 * a0 * cos x;
          c1 = 1 - a1 - b1
      in (c1, b1, a1))"

definition ssf_coeffs3 :: "int \<Rightarrow> real \<times> real \<times> real \<times> real" where
  "ssf_coeffs3 len =
     (let x = pi / of_int len;
          a0 = exp (- x);
          b0 = 2 * a0 * cos (sqrt 3 * x);
          c0 = a0 * a0;
          c4 = c0 * c0;
          c3 = - c0 * (1 + b0);
          c2 = c0 + b0;
          c1 = 1 - c2 - c3 - c4
      in (c1, c2, c3, c4))"

text \<open>
  \<^verbatim>\<open>ssf(close, length, poles, offset)\<close>. The arguments \<open>len\<close> and \<open>poles\<close> are
  \<open>None\<close> when the caller passes none. The buffer starts as a copy of \<open>close\<close> with
  every position from \<open>poles\<close> on set to zero (\<^verbatim>\<open>ssf[poles:] = 0\<close>).
\<close>

definition ssf :: "real list \<Rightarrow> int option \<Rightarrow> int option \<Rightarrow> int \<Rightarrow> error + real option list" where
  "ssf close len poles offset =
     (let len = (case len of Some l \<Rightarrow> if l > 0 then l else 10 | None \<Rightarrow> 10);
          poles = (case poles of Some p \<Rightarrow> if p = 2 \<or> p = 3 then nat p else 2 | None \<Rightarrow> 2);
          m = length close;
          buf = take poles close @ replicate (m - poles) 0;
          r = (if poles = 3
               then (case ssf_coeffs3 len of (c1, c2, c3, c4) \<Rightarrow>
                       ssf_loop3 c1 c2 c3 c4 close [0..<m] buf)
               else (case ssf_coeffs2 len of (c1, b1, a1) \<Rightarrow>
                       ssf_loop2 c1 b1 a1 close [0..<m] buf))
      in case r of Inl e \<Rightarrow> Inl e
         | Inr out \<Rightarrow> Inr (if offset \<noteq> 0 then shift offset (map Some out) else map Some out))"

subsection \<open>Volume weighted average price (overlap/vwap.py)\<close>

text \<open>
  A row label of the index: a calendar date and the time within the day.
  \<^verbatim>\<open>index.to_period('d')\<close> keeps the date.
\<close>

record timestamp =
  year :: int
  month :: nat
  day :: nat
  second_of_day :: nat

definition to_period_d :: "timestamp \<Rightarrow> int \<times> nat \<times> nat" where
  "to_period_d ts = (year ts, month ts, day ts)"

text \<open>
  Modelled from the spec: \<^verbatim>\<open>hlc3\<close> (\<^verbatim>\<open>pandas_ta/overlap/hlc3.py\<close> is not among
  the sources). Section 4.3: the typical price of a row is the arithmetic mean of high,
  low and close, \<open>(high + low + close) / 3\<close>.
\<close>

definition hlc3 :: "real list \<Rightarrow> real list \<Rightarrow> real list \<Rightarrow> real list" where
  "hlc3 high low close = map (\<lambda>(h, l, c). (h + l + c) / 3) (zip high (zip low close))"

text \<open>
  \<^verbatim>\<open>s.groupby(keys).cumsum()\<close>, in one pass over the rows: \<open>tot\<close> holds the running
  total of every group met so far; a row adds its value to the total of its own group
  and shows that total.
\<close>

fun cumsum_by :: "('k \<Rightarrow> real) \<Rightarrow> 'k list \<Rightarrow> real list \<Rightarrow> real list" where
  "cumsum_by tot (k # ks) (v # vs) = (tot k + v) # cumsum_by (tot(k := tot k + v)) ks vs"
| "cumsum_by tot ks vs = []"

definition groupby_cumsum :: "'k list \<Rightarrow> real list \<Rightarrow> real list" where
  "groupby_cumsum keys vals = cumsum_by (\<lambda>k. 0) keys vals"

text \<open>
  The quotient of two float cells. A zero divisor gives \<^verbatim>\<open>NaN\<close> or an infinity, no
  exception: \<open>None\<close>.
\<close>

definition float_div :: "real \<Rightarrow> real \<Rightarrow> real option" where
  "float_div x y = (if y = 0 then None else Some (x / y))"

text \<open>
  \<^verbatim>\<open>vwap(high, low, close, volume, offset)\<close>. The four Series carry one index
  \<open>idx\<close>, the precondition of Section 4.3: a row is a position of \<open>idx\<close>, and the
  five lists have one length. The two \<^verbatim>\<open>is_datetime_ordered\<close> tests only print a
  warning and leave the value alone.
\<close>

definition vwap :: "timestamp list \<Rightarrow> real list \<Rightarrow> real list \<Rightarrow> real list \<Rightarrow> real list \<Rightarrow> int \<Rightarrow> real option list" where
  "vwap idx high low close volume offset =
     (let typical_price = hlc3 high low close;
          weighted_price = map (\<lambda>(p, v). p * v) (zip typical_price volume);
          period = map to_period_d idx;
          vwap = map (\<lambda>(wp, v). float_div wp v)
                   (zip (groupby_cumsum period weighted_price) (groupby_cumsum period volume))
      in if offset \<noteq> 0 then shift offset vwap else vwap)"

subsection \<open>Volume profile (volume/vp.py)\<close>

text \<open>
  \<^verbatim>\<open>signed_series\<close> lives in \<^verbatim>\<open>pandas_ta/utils\<close>, which is not among the sources.
  \<^verbatim>\<open>vp\<close> takes it as the parameter \<open>signed_fn\<close>: from a Series and the initial value
  it gives the Series of signed prices.
\<close>

type_synonym signed_fn = "real list \<Rightarrow> real \<Rightarrow> real list"

text \<open>
  pandas aligns two Series on their labels before it combines them. With positions as
  labels, a column is the list of its cells from position \<open>0\<close>, and a position past its
  end reads as \<^verbatim>\<open>NaN\<close>.
\<close>

type_synonym column = "real option list"

definition cell :: "column \<Rightarrow> nat \<Rightarrow> real option" where
  "cell col i = (if i < length col then col ! i else None)"

text \<open>\<^verbatim>\<open>s[mask]\<close>: the rows where the mask holds; the others are absent from the result.\<close>

definition select_rows :: "(real \<Rightarrow> bool) \<Rightarrow> real list \<Rightarrow> column" where
  "select_rows keep s = map (\<lambda>v. if keep v then Some v else None) s"

text \<open>\<^verbatim>\<open>a * b\<close> on two Series: the product where both have the row, \<^verbatim>\<open>NaN\<close> elsewhere.\<close>

definition mul_aligned :: "column \<Rightarrow> column \<Rightarrow> column" where
  "mul_aligned a b =
     map (\<lambda>i. case (cell a i, cell b i) of (Some x, Some y) \<Rightarrow> Some (x * y) | _ \<Rightarrow> None)
       [0..<max (length a) (length b)]"

text \<open>
  The setup of \<^verbatim>\<open>vp\<close>: the frame \<^verbatim>\<open>concat([close, pos_volume, neg_volume], axis=1)\<close>,
  a list of rows \<open>(close, pos_volume, neg_volume)\<close>.
\<close>

type_synonym vp_row = "real option \<times> real option \<times> real option"

definition vp_setup :: "signed_fn \<Rightarrow> real list \<Rightarrow> real list \<Rightarrow> vp_row list" where
  "vp_setup signed_fn close volume =
     (let signed_price = signed_fn close 1;
          pos_vol = mul_aligned (select_rows (\<lambda>v. v > 0) signed_price) (map Some volume);
          neg_vol = mul_aligned (select_rows (\<lambda>v. v < 0) signed_price) (map (\<lambda>v. Some (- v)) volume)
      in map (\<lambda>i. (cell (map Some close) i, cell pos_vol i, cell neg_vol i))
           [0..<max (length close) (max (length pos_vol) (length neg_vol))])"

text \<open>
  \<^verbatim>\<open>numpy.array_split(ary, sections)\<close>: \<open>sections\<close> consecutive pieces, the first
  \<open>n mod sections\<close> of them one row longer than the rest. numpy raises for
  \<open>sections = 0\<close>; \<^verbatim>\<open>vp\<close> passes a positive width only.
\<close>

fun split_sizes :: "nat list \<Rightarrow> 'a list \<Rightarrow> 'a list list" where
  "split_sizes [] ary = []"
| "split_sizes (k # ks) ary = take k ary # split_sizes ks (drop k ary)"

definition array_split :: "'a list \<Rightarrow> nat \<Rightarrow> 'a list list" where
  "array_split ary sections =
     (let each_section = length ary div sections;
          extras = length ary mod sections
      in split_sizes (replicate extras (each_section + 1) @ replicate (sections - extras) each_section) ary)"

text \<open>The aggregates of a column; each skips \<^verbatim>\<open>NaN\<close> cells, as pandas does.\<close>

definition present :: "column \<Rightarrow> real list" where
  "present col = List.map_filter (\<lambda>c. c) col"

definition col_min :: "column \<Rightarrow> real option" where
  "col_min col = (case present col of [] \<Rightarrow> None | v # vs \<Rightarrow> Some (fold min vs v))"

definition col_max :: "column \<Rightarrow> real option" where
  "col_max col = (case present col of [] \<Rightarrow> None | v # vs \<Rightarrow> Some (fold max vs v))"

definition col_mean :: "column \<Rightarrow> real option" where
  "col_mean col =
     (case present col of [] \<Rightarrow> None | v # vs \<Rightarrow> Some (sum_list (v # vs) / real (length (v # vs))))"

definition col_sum :: "column \<Rightarrow> real" where
  "col_sum col = sum_list (present col)"

text \<open>A row of the returned table, with the line that adds \<^verbatim>\<open>total_volume\<close>.\<close>

record bucket =
  low_close :: "real option"
  mean_close :: "real option"
  high_close :: "real option"
  pos_volume :: real
  neg_volume :: real
  total_volume :: real

definition bucket_row :: "real option \<Rightarrow> real option \<Rightarrow> real option \<Rightarrow> real \<Rightarrow> real \<Rightarrow> bucket" where
  "bucket_row lo mean hi pos neg =
     \<lparr>low_close = lo, mean_close = mean, high_close = hi,
      pos_volume = pos, neg_volume = neg, total_volume = pos + neg\<rparr>"

text \<open>The chronological branch: one bucket for every piece of \<^verbatim>\<open>array_split\<close>.\<close>

definition vp_range :: "vp_row list \<Rightarrow> bucket" where
  "vp_range r =
     bucket_row (col_min (map fst r)) (col_mean (map fst r)) (col_max (map fst r))
       (col_sum (map (fst \<circ> snd) r)) (col_sum (map (snd \<circ> snd) r))"

text \<open>
  The \<^verbatim>\<open>sort_close\<close> branch. \<^verbatim>\<open>pandas.cut\<close> is the parameter \<open>pd_cut\<close>: from the close column and
  the width it gives the intervals \<open>(left, right)\<close> in order and, for every row, the
  position of its interval (\<open>None\<close> for a row in no interval). The grouped table has
  one row for every interval.
\<close>

type_synonym cut_fn = "column \<Rightarrow> nat \<Rightarrow> (real \<times> real) list \<times> nat option list"

definition vp_sorted :: "cut_fn \<Rightarrow> vp_row list \<Rightarrow> nat \<Rightarrow> bucket list" where
  "vp_sorted pd_cut vp width =
     (case pd_cut (map fst vp) width of (intervals, codes) \<Rightarrow>
        map (\<lambda>(k, (left, right)).
               (let r = map snd (filter (\<lambda>(c, row). c = Some k) (zip codes vp))
                in bucket_row (Some left) (col_mean (map fst r)) (Some right)
                     (col_sum (map (fst \<circ> snd) r)) (col_sum (map (snd \<circ> snd) r))))
          (zip [0..<length intervals] intervals))"

text \<open>
  \<^verbatim>\<open>vp(close, volume, width, sort_close=...)\<close>. \<open>close\<close> and \<open>volume\<close> are what
  \<^verbatim>\<open>verify_series\<close> returned, \<open>None\<close> for Python's \<^verbatim>\<open>None\<close>; the function then
  returns \<^verbatim>\<open>None\<close> too. The keyword arguments \<^verbatim>\<open>fillna\<close> and \<^verbatim>\<open>fill_method\<close>, which
  rewrite the \<^verbatim>\<open>NaN\<close> cells of the finished table, are absent from the call.
\<close>

definition vp :: "signed_fn \<Rightarrow> cut_fn \<Rightarrow> real list option \<Rightarrow> real list option \<Rightarrow> int option \<Rightarrow> bool \<Rightarrow> bucket list option" where
  "vp signed_fn pd_cut close volume width sort_close =
     (let width = nat (case width of Some w \<Rightarrow> if w > 0 then w else 10 | None \<Rightarrow> 10)
      in case (close, volume) of
           (Some close, Some volume) \<Rightarrow>
             (let vp = vp_setup signed_fn close volume
              in Some (if sort_close then vp_sorted pd_cut vp width
                       else map vp_range (array_split vp width)))
         | _ \<Rightarrow> None)"

text \<open>
  Modelled from the spec: \<^verbatim>\<open>signed_series\<close> (\<^verbatim>\<open>pandas_ta/utils\<close> is not among the
  sources). Section 4.4: every row is classed positive or negative by the sign of the
  close-to-close change; the first row, which has no row before it, takes the initial
  value; a flat row follows a default sign. The spec does not say which sign that is:
  it is the argument \<open>flat\<close>, \<open>1\<close> or \<open>-1\<close>.
\<close>

definition signed_series :: "real \<Rightarrow> real list \<Rightarrow> real \<Rightarrow> real list" where
  "signed_series flat series initial =
     (case series of
        [] \<Rightarrow> []
      | x # later \<Rightarrow>
          initial # map (\<lambda>(prev, cur). if prev < cur then 1 else if cur < prev then - 1 else flat)
                      (zip series later))"

subsection \<open>Linear regression (utils/_math.py)\<close>

text \<open>
  The scalars of a regression result can leave the finite numbers: numpy divides by
  zero without raising (the code switches the warnings off). A scalar is a finite real,
  an infinity or \<^verbatim>\<open>NaN\<close>, with the IEEE rules for the operations used; every zero is
  the positive zero.
\<close>

datatype npfloat = Fin real | PosInf | NegInf | NaN

fun np_neg :: "npfloat \<Rightarrow> npfloat" where
  "np_neg (Fin x) = Fin (- x)"
| "np_neg PosInf = NegInf"
| "np_neg NegInf = PosInf"
| "np_neg NaN = NaN"

fun np_add :: "npfloat \<Rightarrow> npfloat \<Rightarrow> npfloat" where
  "np_add NaN v = NaN"
| "np_add u NaN = NaN"
| "np_add (Fin x) (Fin y) = Fin (x + y)"
| "np_add PosInf NegInf = NaN"
| "np_add NegInf PosInf = NaN"
| "np_add (Fin x) v = v"
| "np_add u v = u"

definition np_sub :: "npfloat \<Rightarrow> npfloat \<Rightarrow> npfloat" where
  "np_sub u v = np_add u (np_neg v)"

fun np_mul :: "npfloat \<Rightarrow> npfloat \<Rightarrow> npfloat" where
  "np_mul NaN v = NaN"
| "np_mul u NaN = NaN"
| "np_mul (Fin x) (Fin y) = Fin (x * y)"
| "np_mul (Fin x) v = (if x = 0 then NaN else if 0 < x then v else np_neg v)"
| "np_mul u (Fin y) = (if y = 0 then NaN else if 0 < y then u else np_neg u)"
| "np_mul PosInf v = v"
| "np_mul NegInf v = np_neg v"

fun np_div :: "npfloat \<Rightarrow> npfloat \<Rightarrow> npfloat" where
  "np_div NaN v = NaN"
| "np_div u NaN = NaN"
| "np_div (Fin x) (Fin y) =
     (if y \<noteq> 0 then Fin (x / y) else if x = 0 then NaN else if 0 < x then PosInf else NegInf)"
| "np_div (Fin x) v = Fin 0"
| "np_div u (Fin y) = (if 0 \<le> y then u else np_neg u)"
| "np_div u v = NaN"

fun npSqrt :: "npfloat \<Rightarrow> npfloat" where
  "npSqrt (Fin x) = (if 0 \<le> x then Fin (sqrt x) else NaN)"
| "npSqrt PosInf = PosInf"
| "npSqrt v = NaN"

text \<open>\<^verbatim>\<open>s.mean()\<close>: the sum over the size; \<^verbatim>\<open>NaN\<close> for an empty Series.\<close>

definition series_mean :: "real list \<Rightarrow> npfloat" where
  "series_mean s = np_div (Fin (sum_list s)) (Fin (real (length s)))"

text \<open>
  \<^verbatim>\<open>numpy.corrcoef(x, y)[0, 1]\<close>. numpy takes the covariance matrix of the two rows
  (the sums of products of deviations, times \<open>1 / fact\<close> with \<open>fact = n - 1\<close>, and
  \<open>fact = 0\<close> when that is not positive), divides the entry by the square roots of
  the two diagonal entries, and clips the quotient to \<open>-1 .. 1\<close>.
\<close>

definition dev_products :: "real list \<Rightarrow> real list \<Rightarrow> real" where
  "dev_products x y =
     (let mx = sum_list x / real (length x); my = sum_list y / real (length y)
      in sum_list (map (\<lambda>(u, v). (u - mx) * (v - my)) (zip x y)))"

definition np_clip :: "npfloat \<Rightarrow> npfloat" where
  "np_clip v = (case v of Fin c \<Rightarrow> Fin (min 1 (max (- 1) c))
                | PosInf \<Rightarrow> Fin 1 | NegInf \<Rightarrow> Fin (- 1) | NaN \<Rightarrow> NaN)"

definition npCorrcoef :: "real list \<Rightarrow> real list \<Rightarrow> npfloat" where
  "npCorrcoef x y =
     (let fact = max (real (length x) - 1) 0;
          cov = (\<lambda>u v. np_mul (Fin (dev_products u v)) (np_div (Fin 1) (Fin fact)))
      in np_clip (np_div (np_div (cov x y) (npSqrt (cov x x))) (npSqrt (cov y y))))"

text \<open>The returned dict, with its keys \<^verbatim>\<open>a\<close>, \<^verbatim>\<open>b\<close>, \<^verbatim>\<open>r\<close>, \<^verbatim>\<open>t\<close> and \<^verbatim>\<open>line\<close>.\<close>

record regression =
  key_a :: npfloat
  key_b :: npfloat
  key_r :: npfloat
  key_t :: npfloat
  key_line :: "npfloat list"

definition t_statistic :: "npfloat \<Rightarrow> nat \<Rightarrow> npfloat" where
  "t_statistic r m =
     np_div r (npSqrt (np_div (np_sub (Fin 1) (np_mul r r)) (Fin (real m - 2))))"

definition linear_regression_np :: "real list \<Rightarrow> real list \<Rightarrow> regression" where
  "linear_regression_np x y =
     (let m = length x;
          x_sum = sum_list x;
          y_sum = sum_list y;
          r = npCorrcoef x y;
          r_mixture = real m * sum_list (map (\<lambda>(u, v). u * v) (zip x y)) - x_sum * y_sum;
          b = np_div (Fin r_mixture) (Fin (real m * sum_list (map (\<lambda>u. u * u) x) - x_sum * x_sum));
          a = np_sub (series_mean y) (np_mul b (series_mean x));
          line = map (\<lambda>u. np_add a (np_mul b (Fin u))) x
      in \<lparr>key_a = a, key_b = b, key_r = r, key_t = t_statistic r m, key_line = line\<rparr>)"

text \<open>
  scikit-learn, by its documentation. \<^verbatim>\<open>LinearRegression().fit(X, y)\<close> refuses an empty
  sample with \<^verbatim>\<open>ValueError\<close> and otherwise returns the least-squares intercept and
  slope (the slope of least norm, \<open>0\<close>, when \<open>x\<close> is constant).
  \<^verbatim>\<open>lr.score(X, y)\<close> is the coefficient of determination
  \<open>1 - SS_res / SS_tot\<close> of the fit: \<^verbatim>\<open>NaN\<close> for fewer than two samples, and for a
  constant \<open>y\<close> the value \<open>1\<close> when the fit is exact and \<open>0\<close> when not.
\<close>

definition sk_fit :: "real list \<Rightarrow> real list \<Rightarrow> error + real \<times> real" where
  "sk_fit x y =
     (if x = [] then Inl ValueError
      else (let coef = (if dev_products x x = 0 then 0 else dev_products x y / dev_products x x);
                intercept = sum_list y / real (length y) - coef * (sum_list x / real (length x))
            in Inr (intercept, coef)))"

definition sk_score :: "real \<times> real \<Rightarrow> real list \<Rightarrow> real list \<Rightarrow> npfloat" where
  "sk_score lr x y =
     (case lr of (intercept, coef) \<Rightarrow>
        (let ss_res = sum_list (map (\<lambda>(u, v). (v - (intercept + coef * u)) ^ 2) (zip x y));
             ss_tot = dev_products y y
         in if length y < 2 then NaN
            else if ss_tot = 0 then (if ss_res = 0 then Fin 1 else Fin 0)
            else Fin (1 - ss_res / ss_tot)))"

definition linear_regression_sklearn :: "real list \<Rightarrow> real list \<Rightarrow> error + regression" where
  "linear_regression_sklearn x y =
     (case sk_fit x y of
        Inl e \<Rightarrow> Inl e
      | Inr lr \<Rightarrow>
          (let r = sk_score lr x y;
               a = fst lr;
               b = snd lr
           in Inr \<lparr>key_a = Fin a, key_b = Fin b, key_r = r,
                    key_t = t_statistic r (length x),
                    key_line = map (\<lambda>u. Fin (a + b * u)) x\<rparr>))"

text \<open>Python's \<^verbatim>\<open>str\<close> of a natural number, for the printed messages.\<close>

fun str_nat :: "nat \<Rightarrow> string" where
  "str_nat n =
     (if n < 10 then [''0123456789'' ! n]
      else str_nat (n div 10) @ [''0123456789'' ! (n mod 10)])"

text \<open>
  \<^verbatim>\<open>linear_regression(x, y)\<close>. The flag \<open>sklearn\<close> is \<^verbatim>\<open>Imports["sklearn"]\<close>. The
  value is the list of the printed lines and the outcome: an exception, or the returned
  object, \<open>None\<close> for Python's \<^verbatim>\<open>None\<close>.
\<close>

definition linear_regression :: "bool \<Rightarrow> real list \<Rightarrow> real list \<Rightarrow> string list \<times> (error + regression option)" where
  "linear_regression sklearn x y =
     (let m = length x; n = length y
      in if m \<noteq> n
         then ([''[X] Linear Regression X and y observations do not match: ''
                  @ str_nat m @ '' != '' @ str_nat n], Inr None)
         else if sklearn
         then ([], case linear_regression_sklearn x y of Inl e \<Rightarrow> Inl e | Inr res \<Rightarrow> Inr (Some res))
         else ([], Inr (Some (linear_regression_np x y))))"

subsection \<open>The DataFrame extension (core.py)\<close>

text \<open>
  A Series has a name, an index of labels and one cell for every label. A DataFrame has
  an index and its columns in order, every column under its own name; the invariant of
  Section 3 is that every column is as long as the index.
\<close>

type_synonym label = int

record series =
  s_name :: string
  s_index :: "label list"
  s_values :: column

record dataframe =
  df_index :: "label list"
  df_columns :: "(string \<times> column) list"

definition columns :: "dataframe \<Rightarrow> string list" where
  "columns df = map fst (df_columns df)"

text \<open>\<^verbatim>\<open>df[key]\<close> for reading: the column of that name, or \<^verbatim>\<open>KeyError\<close>.\<close>

definition getitem :: "dataframe \<Rightarrow> string option \<Rightarrow> error + series" where
  "getitem df key =
     (case key of
        None \<Rightarrow> Inl KeyError
      | Some c \<Rightarrow>
          (case map_of (df_columns df) c of
             None \<Rightarrow> Inl KeyError
           | Some col \<Rightarrow> Inr \<lparr>s_name = c, s_index = df_index df, s_values = col\<rparr>))"

text \<open>\<^verbatim>\<open>df.iloc[:, i]\<close>: the column at position \<open>i\<close>, used below with a valid position.\<close>

definition iloc_column :: "dataframe \<Rightarrow> nat \<Rightarrow> series" where
  "iloc_column df i =
     \<lparr>s_name = fst (df_columns df ! i), s_index = df_index df, s_values = snd (df_columns df ! i)\<rparr>"

text \<open>
  \<^verbatim>\<open>df[name] = s\<close>. pandas takes the cells of \<open>s\<close> as they are when its index is the
  frame's, and otherwise looks every label of the frame up in \<open>s\<close> (\<^verbatim>\<open>NaN\<close> for a label
  \<open>s\<close> lacks), which raises \<^verbatim>\<open>ValueError\<close> when \<open>s\<close> repeats a label. Every column of
  that name is rewritten where it stands; a new name goes to the end.
\<close>

definition reindex :: "label list \<Rightarrow> series \<Rightarrow> error + column" where
  "reindex idx s =
     (if s_index s = idx then Inr (s_values s)
      else if distinct (s_index s)
      then Inr (map (\<lambda>l. case map_of (zip (s_index s) (s_values s)) l of
                              None \<Rightarrow> None | Some c \<Rightarrow> c) idx)
      else Inl ValueError)"

definition store_column :: "string \<Rightarrow> column \<Rightarrow> (string \<times> column) list \<Rightarrow> (string \<times> column) list" where
  "store_column name col cols =
     (if name \<in> set (map fst cols)
      then map (\<lambda>(c, old). if c = name then (c, col) else (c, old)) cols
      else cols @ [(name, col)])"

definition setitem :: "dataframe \<Rightarrow> string \<Rightarrow> series \<Rightarrow> error + dataframe" where
  "setitem df name s =
     (case reindex (df_index df) s of
        Inl e \<Rightarrow> Inl e
      | Inr col \<Rightarrow> Inr (df\<lparr>df_columns := store_column name col (df_columns df)\<rparr>))"

text \<open>
  The attribute \<^verbatim>\<open>self._df\<close> of the accessor. \<^verbatim>\<open>BasePandasObject.__init__\<close> leaves
  it unset for an empty DataFrame, and reading an unset attribute raises
  \<^verbatim>\<open>AttributeError\<close>; a set attribute holds \<^verbatim>\<open>None\<close> or a DataFrame.
\<close>

datatype accessor = Unset | Bound "dataframe option"

datatype pyval = PyNone | PyBool bool | PyInt int | PyStr string

fun truthy :: "pyval \<Rightarrow> bool" where
  "truthy PyNone = False"
| "truthy (PyBool b) = b"
| "truthy (PyInt i) = (i \<noteq> 0)"
| "truthy (PyStr s) = (s \<noteq> [])"

type_synonym kwargs = "string \<Rightarrow> pyval option"

datatype result = RSeries series | RFrame dataframe

text \<open>
  \<^verbatim>\<open>_append(result, **kwargs)\<close>. The DataFrame is changed in place: the value is the
  exception raised, if any, and the accessor afterwards. The loop over a DataFrame
  result stores \<^verbatim>\<open>result.iloc[:, i]\<close> under the \<open>i\<close>-th column name.
\<close>

fun append_columns :: "dataframe \<Rightarrow> label list \<Rightarrow> (string \<times> column) list \<Rightarrow> error option \<times> dataframe" where
  "append_columns df idx [] = (None, df)"
| "append_columns df idx ((column, cells) # rest) =
     (case setitem df column \<lparr>s_name = column, s_index = idx, s_values = cells\<rparr> of
        Inl e \<Rightarrow> (Some e, df)
      | Inr df' \<Rightarrow> append_columns df' idx rest)"

definition ta_append :: "accessor \<Rightarrow> result option \<Rightarrow> kwargs \<Rightarrow> error option \<times> accessor" where
  "ta_append self result kwargs =
     (if (case kwargs ''append'' of None \<Rightarrow> False | Some v \<Rightarrow> truthy v)
      then (case self of
              Unset \<Rightarrow> (Some AttributeError, self)
            | Bound None \<Rightarrow> (None, self)
            | Bound (Some df) \<Rightarrow>
                (case result of
                   None \<Rightarrow> (None, self)
                 | Some (RFrame r) \<Rightarrow>
                     (case append_columns df (df_index r) (df_columns r) of
                        (e, df') \<Rightarrow> (e, Bound (Some df')))
                 | Some (RSeries s) \<Rightarrow>
                     (case setitem df (s_name s) s of
                        Inl e \<Rightarrow> (Some e, self)
                      | Inr df' \<Rightarrow> (None, Bound (Some df')))))
      else (None, self))"

text \<open>\<^verbatim>\<open>str.lower\<close>, on the letters of ASCII.\<close>

definition lower :: "string \<Rightarrow> string" where
  "lower s =
     map (\<lambda>c. case map_of (zip ''ABCDEFGHIJKLMNOPQRSTUVWXYZ'' ''abcdefghijklmnopqrstuvwxyz'') c of
                None \<Rightarrow> c | Some l \<Rightarrow> l) s"

text \<open>
  \<^verbatim>\<open>df.columns.str.match(pat, case=False)\<close>: pandas compiles \<open>pat\<close> as a regular
  expression with the flag \<^verbatim>\<open>IGNORECASE\<close> and tests it against the start of every column
  name. A pattern of ASCII letters, digits and underscores only has no special
  character: it matches the names that start with it, the case of the letters ignored.
  For any other pattern Python's \<^verbatim>\<open>re\<close> is the parameter \<open>re_compile\<close>: it raises
  \<^verbatim>\<open>re.error\<close> for a pattern that is no regular expression, and otherwise gives the test
  of a name.
\<close>

type_synonym re_fn = "string \<Rightarrow> error + (string \<Rightarrow> bool)"

definition word_char :: "char \<Rightarrow> bool" where
  "word_char c =
     (c \<in> set ''ABCDEFGHIJKLMNOPQRSTUVWXYZabcdefghijklmnopqrstuvwxyz0123456789_'')"

definition letters_match :: "string \<Rightarrow> string \<Rightarrow> bool" where
  "letters_match pat name = (take (length pat) (lower name) = lower pat)"

definition str_match :: "re_fn \<Rightarrow> string \<Rightarrow> string list \<Rightarrow> error + bool list" where
  "str_match re_compile pat names =
     (if list_all word_char pat then Inr (map (letters_match pat) names)
      else (case re_compile pat of
              Inl e \<Rightarrow> Inl e
            | Inr test \<Rightarrow> Inr (map test names)))"

text \<open>
  \<^verbatim>\<open>_get_column(series, default)\<close>, with \<open>default_col\<close> for \<^verbatim>\<open>default\<close>. The argument
  \<open>series\<close> is \<^verbatim>\<open>None\<close>, a Series, a string or something else. The value is the printed
  lines and the outcome.
\<close>

datatype arg = ArgNone | ArgSeries series | ArgStr string | ArgOther

definition join_comma :: "string list \<Rightarrow> string" where
  "join_comma names = (case names of [] \<Rightarrow> [] | n # ns \<Rightarrow> n @ concat (map (\<lambda>x. '', '' @ x) ns))"

definition not_found :: "string \<Rightarrow> dataframe \<Rightarrow> string" where
  "not_found name df =
     ''[X] Ooops!!!: It'' @ [CHR 0x27] @ ''s True, the series '' @ [CHR 0x27] @ name @ [CHR 0x27]
       @ '' not in '' @ join_comma (columns df)"

definition ta_get_column :: "re_fn \<Rightarrow> accessor \<Rightarrow> arg \<Rightarrow> string option \<Rightarrow> string list \<times> (error + series option)" where
  "ta_get_column re_compile self series default_col =
     (case self of
        Unset \<Rightarrow> ([], Inl AttributeError)
      | Bound None \<Rightarrow> ([], Inr None)
      | Bound (Some df) \<Rightarrow>
          (case series of
             ArgSeries s \<Rightarrow> ([], Inr (Some s))
           | _ \<Rightarrow>
               if series = ArgNone \<or> default_col = None
               then ([], map_sum id Some (getitem df default_col))
               else (case series of
                       ArgStr name \<Rightarrow>
                         if name \<in> set (columns df)
                         then ([], map_sum id Some (getitem df (Some name)))
                         else (case str_match re_compile name (columns df) of
                                 Inl e \<Rightarrow> ([], Inl e)
                               | Inr matches \<Rightarrow>
                                   (let match = filter (\<lambda>i. matches ! i) [0..<length matches]
                                    in if match \<noteq> [] then ([], Inr (Some (iloc_column df (hd match))))
                                       else ([not_found name df], Inr None)))
                     | _ \<Rightarrow> ([], Inr None))))"

text \<open>
  \<^verbatim>\<open>__call__(kind, alias, timed, **kwargs)\<close>. An attribute of the accessor is a method,
  which takes the keyword arguments and the accessor and gives its outcome and the
  accessor afterwards, or something that is not callable. \<open>getattr\<close> looks a name up
  on the accessor (\<open>None\<close>: no such attribute) and \<open>elapsed\<close> is the time the two
  readings of the clock differ by. The returned indicator carries the attributes
  \<^verbatim>\<open>timed\<close> and \<^verbatim>\<open>alias\<close> when they were set.
\<close>

datatype attribute =
  Callable "kwargs \<Rightarrow> accessor \<Rightarrow> (error + result option) \<times> accessor"
  | Plain

record indicator =
  payload :: result
  timed_attr :: "real option"
  alias_attr :: "string option"

definition call_attribute :: "(string \<Rightarrow> attribute option) \<Rightarrow> string \<Rightarrow> kwargs \<Rightarrow> accessor \<Rightarrow> (error + result option) \<times> accessor" where
  "call_attribute getattr name kwargs self =
     (case getattr name of
        None \<Rightarrow> (Inl AttributeError, self)
      | Some Plain \<Rightarrow> (Inl TypeError, self)
      | Some (Callable fn) \<Rightarrow> fn kwargs self)"

text \<open>\<^verbatim>\<open>self.help()\<close>: the attribute is looked up like any other; its value is dropped.\<close>

definition ta_help :: "(string \<Rightarrow> attribute option) \<Rightarrow> accessor \<Rightarrow> (error + indicator option) \<times> accessor" where
  "ta_help getattr self =
     (case call_attribute getattr ''help'' (\<lambda>k. None) self of
        (Inl e, self') \<Rightarrow> (Inl e, self')
      | (Inr v, self') \<Rightarrow> (Inr None, self'))"

definition ta_call_body :: "(string \<Rightarrow> attribute option) \<Rightarrow> real \<Rightarrow> accessor \<Rightarrow> pyval \<Rightarrow> string option \<Rightarrow> bool \<Rightarrow> kwargs \<Rightarrow> (error + indicator option) \<times> accessor" where
  "ta_call_body getattr elapsed self kind alias timed kwargs =
     (case kind of
        PyStr k \<Rightarrow>
          (case call_attribute getattr (lower k) kwargs self of
             (Inl e, self') \<Rightarrow> (Inl e, self')
           | (Inr None, self') \<Rightarrow>
               if timed \<or> (alias \<noteq> None \<and> alias \<noteq> Some [])
               then (Inl AttributeError, self')
               else (Inr None, self')
           | (Inr (Some res), self') \<Rightarrow>
               (Inr (Some \<lparr>payload = res,
                              timed_attr = (if timed then Some elapsed else None),
                              alias_attr = (if alias \<noteq> None \<and> alias \<noteq> Some [] then alias else None)\<rparr>),
                self'))
      | _ \<Rightarrow> ta_help getattr self)"

definition ta_call :: "(string \<Rightarrow> attribute option) \<Rightarrow> real \<Rightarrow> accessor \<Rightarrow> pyval \<Rightarrow> string option \<Rightarrow> bool \<Rightarrow> kwargs \<Rightarrow> (error + indicator option) \<times> accessor" where
  "ta_call getattr elapsed self kind alias timed kwargs =
     (case ta_call_body getattr elapsed self kind alias timed kwargs of
        (Inl e, self') \<Rightarrow> ta_help getattr self'
      | (Inr v, self') \<Rightarrow> (Inr v, self'))"

subsection \<open>Notions of the claims\<close>


text \<open>
  What row \<open>j\<close> adds to the positive and to the negative volume of its bucket, given
  the signed prices \<open>s\<close>: the product that \<^verbatim>\<open>vp\<close> forms for a row of positive,
  respectively negative, signed price, and nothing for any other row.
\<close>

definition pos_share :: "real list \<Rightarrow> real list \<Rightarrow> nat \<Rightarrow> real" where
  "pos_share s volume j = (if 0 < s ! j then s ! j * volume ! j else 0)"

definition neg_share :: "real list \<Rightarrow> real list \<Rightarrow> nat \<Rightarrow> real" where
  "neg_share s volume j = (if s ! j < 0 then s ! j * - volume ! j else 0)"


text \<open>
  The assignments \<^verbatim>\<open>df[name] = series\<close> that \<^verbatim>\<open>_append\<close> makes for a result, in order:
  one for a Series, under its name, and one for every column of a DataFrame.
\<close>

definition result_columns :: "result \<Rightarrow> (string \<times> series) list" where
  "result_columns res =
     (case res of
        RSeries s \<Rightarrow> [(s_name s, s)]
      | RFrame r \<Rightarrow>
          map (\<lambda>(c, cells). (c, \<lparr>s_name = c, s_index = df_index r, s_values = cells\<rparr>)) (df_columns r))"

section \<open>Properties\<close>

subsection \<open>Super Smoother Filter\<close>

lemma ssf_loop2_length:
  "ssf_loop2 c1 b1 a1 close is buf = Inr out \<Longrightarrow> length out = length buf"
  by (induction "is" arbitrary: buf) (auto split: sum.splits)

lemma ssf_loop3_length:
  "ssf_loop3 c1 c2 c3 c4 close is buf = Inr out \<Longrightarrow> length out = length buf"
  by (induction "is" arbitrary: buf) (auto split: sum.splits)

lemma shift_length: "length (shift k s) = length s"
  by (auto simp: shift_def Let_def)

text \<open>When \<^const>\<open>ssf\<close> returns, the output is as long as the input.\<close>

lemma ssf_length:
  "ssf close len poles offset = Inr out \<Longrightarrow> length out = length close"
  by (auto simp: ssf_def Let_def shift_length
       split: sum.splits prod.splits if_splits option.splits
       dest!: ssf_loop2_length ssf_loop3_length)

text \<open>
  A Series shorter than the number of poles makes the first step read a position
  before the start of the buffer: \<^verbatim>\<open>IndexError\<close>, for any length argument.
\<close>

lemma ssf_one_row_raises: "ssf [x0] len (Some 2) 0 = Inl IndexError"
  by (simp add: ssf_def Let_def iloc_def split: prod.splits)

lemma ssf_two_rows_raise: "ssf [x0, x1] len (Some 3) 0 = Inl IndexError"
  by (simp add: ssf_def Let_def iloc_def split: prod.splits)

text \<open>The two-pole filter of length 10 on four and on three rows, step by step.\<close>

lemma ssf_four_rows:
  "ssf [x0, x1, x2, x3] (Some 10) (Some 2) 0 =
     (case ssf_coeffs2 10 of (c1, b1, a1) \<Rightarrow>
        Inr [Some (c1 * x0),
             Some (c1 * x1 + b1 * (c1 * x0)),
             Some (c1 * x2 + b1 * (c1 * x1 + b1 * (c1 * x0)) + a1 * (c1 * x0)),
             Some (c1 * x3 + b1 * (c1 * x2 + b1 * (c1 * x1 + b1 * (c1 * x0)) + a1 * (c1 * x0))
                   + a1 * (c1 * x1 + b1 * (c1 * x0)))])"
  by (simp add: ssf_def Let_def iloc_def split: prod.splits)

lemma ssf_three_rows:
  "ssf [x0, x1, x2] (Some 10) (Some 2) 0 =
     (case ssf_coeffs2 10 of (c1, b1, a1) \<Rightarrow>
        Inr [Some (c1 * x0 + a1 * x1),
             Some (c1 * x1 + b1 * (c1 * x0 + a1 * x1)),
             Some (c1 * x2 + b1 * (c1 * x1 + b1 * (c1 * x0 + a1 * x1)) + a1 * (c1 * x0 + a1 * x1))])"
  by (simp add: ssf_def Let_def iloc_def split: prod.splits)

lemma ssf_a1_nonzero: "snd (snd (ssf_coeffs2 len)) \<noteq> 0"
  by (simp add: ssf_coeffs2_def Let_def)

lemma cos_above_half: "1 / 2 < cos (pi * sqrt 2 / 10)"
proof -
  have "sqrt 2 < 10 / 3"
    by (rule real_less_lsqrt) (simp_all add: power2_eq_square)
  then have below: "pi * sqrt 2 / 10 < pi / 3"
    by simp
  have "0 \<le> pi * sqrt 2 / 10"
    by simp
  from cos_monotone_0_pi [OF this below] have "cos (pi / 3) < cos (pi * sqrt 2 / 10)"
    by simp
  then show ?thesis
    by (simp add: cos_60)
qed

lemma ssf_c1_not_one: "fst (ssf_coeffs2 10) \<noteq> 1"
proof -
  let ?x = "pi * sqrt 2 / 10"
  have small: "exp (- ?x) < 1" and pos: "0 < exp (- ?x)"
    by simp_all
  have "exp (- ?x) < 2 * cos ?x"
    using cos_above_half small by linarith
  then have "exp (- ?x) * exp (- ?x) < 2 * exp (- ?x) * cos ?x"
    using pos by (simp add: mult.commute mult.left_commute)
  then show ?thesis
    by (simp add: ssf_coeffs2_def Let_def)
qed

text \<open>A step of the loop writes position \<open>i\<close> only, and on two or more rows no read fails.\<close>

lemma ssf_loop2_untouched:
  "ssf_loop2 c1 b1 a1 close is buf = Inr out \<Longrightarrow> j \<notin> set is \<Longrightarrow> out ! j = buf ! j"
  by (induction "is" arbitrary: buf) (auto split: sum.splits)

lemma iloc_in_range:
  "- int (length s) \<le> i \<Longrightarrow> i < int (length s) \<Longrightarrow> \<exists>v. iloc s i = Inr v"
  by (auto simp: iloc_def)

lemma ssf_loop2_returns:
  "length close = length buf \<Longrightarrow> 2 \<le> length buf \<Longrightarrow> \<forall>i\<in>set is. i < length buf \<Longrightarrow>
   \<exists>out. ssf_loop2 c1 b1 a1 close is buf = Inr out"
proof (induction "is" arbitrary: buf)
  case Nil
  then show ?case by simp
next
  case (Cons i rest)
  have i: "i < length buf"
    using Cons.prems(3) by simp
  obtain x where x: "iloc close (int i) = Inr x"
    using i Cons.prems(1) iloc_in_range [of close "int i"] by auto
  obtain p1 where p1: "iloc buf (int i - 1) = Inr p1"
    using i Cons.prems(2) iloc_in_range [of buf "int i - 1"] by auto
  obtain p2 where p2: "iloc buf (int i - 2) = Inr p2"
    using i Cons.prems(2) iloc_in_range [of buf "int i - 2"] by auto
  have "\<exists>out. ssf_loop2 c1 b1 a1 close rest (list_update buf i (c1 * x + b1 * p1 + a1 * p2)) = Inr out"
    using Cons.prems by (intro Cons.IH) simp_all
  then show ?case
    by (simp add: x p1 p2)
qed

text \<open>
  On every Series of four or more rows the two-pole filter returns, and its first output
  is \<open>c1\<close> times the first input: at position \<open>0\<close> the two wrapped reads meet the
  zeroed tail of the buffer, and the later steps leave position \<open>0\<close> alone.
\<close>

lemma ssf_two_pole_first_output:
  assumes "4 \<le> length close"
  shows "\<exists>out. ssf close len (Some 2) 0 = Inr out
      \<and> out ! 0 = Some (fst (ssf_coeffs2 (case len of Some l \<Rightarrow> if l > 0 then l else 10 | None \<Rightarrow> 10))
                         * close ! 0)"
proof -
  let ?L = "case len of Some l \<Rightarrow> if l > 0 then l else 10 | None \<Rightarrow> 10"
  let ?m = "length close"
  let ?buf = "take 2 close @ replicate (?m - 2) 0"
  obtain c1 b1 a1 where co: "ssf_coeffs2 ?L = (c1, b1, a1)"
    by (cases "ssf_coeffs2 ?L")
  have len: "length ?buf = ?m"
    using assms by simp
  have upt: "[0..<?m] = 0 # [1..<?m]"
    using assms by (subst upt_rec) auto
  have r0: "iloc close (int 0) = Inr (close ! 0)"
    using assms by (cases close) (simp_all add: iloc_def)
  have r1: "iloc ?buf (int 0 - 1) = Inr 0"
    using assms by (auto simp: iloc_def nth_append nat_diff_distrib)
  have r2: "iloc ?buf (int 0 - 2) = Inr 0"
    using assms by (auto simp: iloc_def nth_append nat_diff_distrib)
  let ?seeded = "list_update ?buf 0 (c1 * close ! 0)"
  have "ssf_loop2 c1 b1 a1 close (0 # [1..<?m]) ?buf
      = ssf_loop2 c1 b1 a1 close [1..<?m] (list_update ?buf 0 (c1 * close ! 0 + b1 * 0 + a1 * 0))"
    by (simp only: ssf_loop2.simps r0 r1 r2 sum.case)
  moreover have "c1 * close ! 0 + b1 * 0 + a1 * 0 = c1 * close ! 0"
    by simp
  ultimately have step: "ssf_loop2 c1 b1 a1 close [0..<?m] ?buf = ssf_loop2 c1 b1 a1 close [1..<?m] ?seeded"
    by (simp only: upt)
  have "\<exists>out. ssf_loop2 c1 b1 a1 close [1..<?m] ?seeded = Inr out"
  proof (rule ssf_loop2_returns)
    have same: "length ?seeded = ?m"
      using assms by auto
    show "length close = length ?seeded"
      by (simp only: same)
    show "2 \<le> length ?seeded"
      using assms by (simp add: same del: length_list_update length_append)
    show "\<forall>i\<in>set [1..<?m]. i < length ?seeded"
      by (simp add: same del: length_list_update length_append)
  qed
  then obtain out where out: "ssf_loop2 c1 b1 a1 close [1..<?m] ?seeded = Inr out"
    by blast
  have "out ! 0 = ?seeded ! 0"
    using out by (rule ssf_loop2_untouched) simp
  then have first: "out ! 0 = c1 * close ! 0"
    using assms by simp
  have "length out = ?m"
    using ssf_loop2_length [OF out] assms by auto
  then have pos: "0 < length out"
    using assms by linarith
  have "ssf close len (Some 2) 0 = Inr (map Some out)"
    using step out co by (simp add: ssf_def Let_def)
  then show ?thesis
    using first pos co by simp
qed

text \<open>
  C2, at a failing input. On the constant Series \<open>[1, 1, 1, 1]\<close> with length 10 and two
  poles the filter returns four samples, but the first one is the coefficient \<open>c1\<close>
  and not the input sample \<open>1\<close>: the loop starts at position \<open>0\<close> and rewrites the
  seed rows.
\<close>

theorem ssf_rewrites_first_sample:
  "\<exists>out. ssf [1, 1, 1, 1] (Some 10) (Some 2) 0 = Inr out \<and> length out = 4
      \<and> out ! 0 = Some (fst (ssf_coeffs2 10)) \<and> out ! 0 \<noteq> Some ([1, 1, 1, 1] ! 0)"
  using ssf_c1_not_one by (auto simp: ssf_four_rows split: prod.splits)

text \<open>
  C3, at a failing input. The Series \<open>[1, 2, 3]\<close> and \<open>[1, 5, 3]\<close> agree on row \<open>0\<close>,
  which has no row before it, yet the outputs at row \<open>0\<close> differ: position \<open>-2\<close>
  wraps around to row \<open>1\<close>, which still holds the input sample.
\<close>

theorem ssf_first_output_reads_later_row:
  "\<exists>u v. ssf [1, 2, 3] (Some 10) (Some 2) 0 = Inr u \<and> ssf [1, 5, 3] (Some 10) (Some 2) 0 = Inr v
      \<and> u ! 0 \<noteq> v ! 0"
  using ssf_a1_nonzero [of 10] by (auto simp: ssf_three_rows split: prod.splits)

subsection \<open>Volume weighted average price\<close>

text \<open>
  The one-pass running totals are the prefix sums of the declarative reading: the cell
  of row \<open>i\<close> is the sum over the rows \<open>j \<le> i\<close> of the same group.
\<close>

lemma cumsum_by_length:
  "length (cumsum_by tot ks vs) = min (length ks) (length vs)"
  by (induction tot ks vs rule: cumsum_by.induct) (auto simp: fun_upd_def)

lemma cumsum_by_nth:
  "i < length ks \<Longrightarrow> i < length vs \<Longrightarrow>
   cumsum_by tot ks vs ! i = tot (ks ! i) + (\<Sum>j\<le>i. if ks ! j = ks ! i then vs ! j else 0)"
proof (induction tot ks vs arbitrary: i rule: cumsum_by.induct)
  case (1 tot k ks v vs)
  show ?case
  proof (cases i)
    case 0
    then show ?thesis by simp
  next
    case (Suc n)
    with 1 show ?thesis
      by (simp add: sum.atMost_Suc_shift fun_upd_def del: sum.atMost_Suc cong: if_cong)
  qed
qed auto

lemma groupby_cumsum_nth:
  "i < length ks \<Longrightarrow> i < length vs \<Longrightarrow>
   groupby_cumsum ks vs ! i = (\<Sum>j\<le>i. if ks ! j = ks ! i then vs ! j else 0)"
  by (simp add: groupby_cumsum_def cumsum_by_nth)

lemma groupby_cumsum_length:
  "length (groupby_cumsum ks vs) = min (length ks) (length vs)"
  by (simp add: groupby_cumsum_def cumsum_by_length)

lemma hlc3_nth:
  "i < length high \<Longrightarrow> i < length low \<Longrightarrow> i < length close \<Longrightarrow>
   hlc3 high low close ! i = (high ! i + low ! i + close ! i) / 3"
  by (simp add: hlc3_def)

lemma hlc3_length: "length (hlc3 high low close) = min (length high) (min (length low) (length close))"
  by (simp add: hlc3_def)

text \<open>
  C4. For four Series on one index, the cell of \<^const>\<open>vwap\<close> at row \<open>i\<close> is the
  quotient of two prefix sums over the rows \<open>j \<le> i\<close> of the calendar day of row
  \<open>i\<close>: of typical price times volume, the typical price being
  \<open>(high + low + close) / 3\<close>, and of volume. Rows of other days add nothing, so the
  accumulation starts afresh on every day. Where the volume sum is zero the cell holds
  no finite number.
\<close>

theorem vwap_daily_prefix_ratio:
  assumes "length high = length idx" and "length low = length idx"
    and "length close = length idx" and "length volume = length idx"
    and "i < length idx"
  shows "length (vwap idx high low close volume 0) = length idx \<and>
    vwap idx high low close volume 0 ! i =
      float_div
        (\<Sum>j\<le>i. if to_period_d (idx ! j) = to_period_d (idx ! i)
                then (high ! j + low ! j + close ! j) / 3 * volume ! j else 0)
        (\<Sum>j\<le>i. if to_period_d (idx ! j) = to_period_d (idx ! i) then volume ! j else 0)"
proof -
  let ?tp = "hlc3 high low close"
  let ?wp = "map (\<lambda>(p, v). p * v) (zip ?tp volume)"
  let ?period = "map to_period_d idx"
  have len_wp: "length ?wp = length idx"
    using assms by (simp add: hlc3_length)
  have wp_nth: "?wp ! j = (high ! j + low ! j + close ! j) / 3 * volume ! j" if "j < length idx" for j
    using that assms by (simp add: hlc3_length hlc3_nth)
  have num: "groupby_cumsum ?period ?wp ! i =
      (\<Sum>j\<le>i. if to_period_d (idx ! j) = to_period_d (idx ! i)
                then (high ! j + low ! j + close ! j) / 3 * volume ! j else 0)"
  proof -
    have "groupby_cumsum ?period ?wp ! i =
        (\<Sum>j\<le>i. if ?period ! j = ?period ! i then ?wp ! j else 0)"
      using assms len_wp by (intro groupby_cumsum_nth) simp_all
    also have "\<dots> = (\<Sum>j\<le>i. if to_period_d (idx ! j) = to_period_d (idx ! i)
                then (high ! j + low ! j + close ! j) / 3 * volume ! j else 0)"
      using assms(5) by (intro sum.cong refl) (simp add: wp_nth del: map_eq_conv)
    finally show ?thesis .
  qed
  have den: "groupby_cumsum ?period volume ! i =
      (\<Sum>j\<le>i. if to_period_d (idx ! j) = to_period_d (idx ! i) then volume ! j else 0)"
  proof -
    have "groupby_cumsum ?period volume ! i =
        (\<Sum>j\<le>i. if ?period ! j = ?period ! i then volume ! j else 0)"
      using assms by (intro groupby_cumsum_nth) simp_all
    also have "\<dots> = (\<Sum>j\<le>i. if to_period_d (idx ! j) = to_period_d (idx ! i) then volume ! j else 0)"
      using assms(5) by (intro sum.cong refl) simp
    finally show ?thesis .
  qed
  have len: "length (vwap idx high low close volume 0) = length idx"
    using assms len_wp by (simp add: vwap_def Let_def groupby_cumsum_length del: map_eq_conv)
  have "vwap idx high low close volume 0 ! i =
      float_div (groupby_cumsum ?period ?wp ! i) (groupby_cumsum ?period volume ! i)"
    using assms len_wp by (simp add: vwap_def Let_def groupby_cumsum_length)
  with num den len show ?thesis by simp
qed


text \<open>
  Two rows of 2 January and one of 3 January: row \<open>1\<close> accumulates both rows of its
  day, row \<open>2\<close> starts again.
\<close>

theorem vwap_daily_prefix_ratio_witness:
  "length [3, 6, 9 :: real] = 3 \<and> length [1, 2, 3 :: real] = 3 \<and> length [2, 4, 6 :: real] = 3
     \<and> length [10, 20, 5 :: real] = 3 \<and> (2 :: nat) < 3
     \<and> vwap [\<lparr>year = 2020, month = 1, day = 2, second_of_day = 34200\<rparr>,
              \<lparr>year = 2020, month = 1, day = 2, second_of_day = 34260\<rparr>,
              \<lparr>year = 2020, month = 1, day = 3, second_of_day = 34200\<rparr>]
          [3, 6, 9] [1, 2, 3] [2, 4, 6] [10, 20, 5] 0 ! 2 = Some 6
     \<and> vwap [\<lparr>year = 2020, month = 1, day = 2, second_of_day = 34200\<rparr>,
              \<lparr>year = 2020, month = 1, day = 2, second_of_day = 34260\<rparr>,
              \<lparr>year = 2020, month = 1, day = 3, second_of_day = 34200\<rparr>]
          [3, 6, 9] [1, 2, 3] [2, 4, 6] [10, 20, 5] 0 ! 1 = Some (10 / 3)"
  using vwap_daily_prefix_ratio [of "[3, 6, 9]"
      "[\<lparr>year = 2020, month = 1, day = 2, second_of_day = 34200\<rparr>,
        \<lparr>year = 2020, month = 1, day = 2, second_of_day = 34260\<rparr>,
        \<lparr>year = 2020, month = 1, day = 3, second_of_day = 34200\<rparr>]"
      "[1, 2, 3]" "[2, 4, 6]" "[10, 20, 5]" 2]
    vwap_daily_prefix_ratio [of "[3, 6, 9]"
      "[\<lparr>year = 2020, month = 1, day = 2, second_of_day = 34200\<rparr>,
        \<lparr>year = 2020, month = 1, day = 2, second_of_day = 34260\<rparr>,
        \<lparr>year = 2020, month = 1, day = 3, second_of_day = 34200\<rparr>]"
      "[1, 2, 3]" "[2, 4, 6]" "[10, 20, 5]" 1]
  by (simp add: float_div_def to_period_d_def numeral_2_eq_2)

lemma mul_aligned_length: "length (mul_aligned a b) = max (length a) (length b)"
  by (simp add: mul_aligned_def)

lemma vp_setup_length:
  "length (signed_fn close 1) = length close \<Longrightarrow> length close = length volume \<Longrightarrow>
   length (vp_setup signed_fn close volume) = length close"
  by (simp add: vp_setup_def Let_def mul_aligned_length select_rows_def)

lemma vp_setup_nth:
  assumes "length (signed_fn close 1) = length close" and "length close = length volume"
    and "i < length close"
  shows "vp_setup signed_fn close volume ! i =
     (Some (close ! i),
      if 0 < signed_fn close 1 ! i then Some (signed_fn close 1 ! i * volume ! i) else None,
      if signed_fn close 1 ! i < 0 then Some (signed_fn close 1 ! i * - volume ! i) else None)"
  using assms
  by (auto simp: vp_setup_def Let_def mul_aligned_length mul_aligned_def select_rows_def cell_def)

text \<open>
  \<^verbatim>\<open>array_split\<close> cuts a list into the given number of consecutive pieces, which
  together are the list; cutting commutes with a map over the rows.
\<close>

lemma split_sizes_length: "length (split_sizes ks ary) = length ks"
  by (induction ks arbitrary: ary) simp_all

lemma split_sizes_concat:
  "length ary \<le> sum_list ks \<Longrightarrow> concat (split_sizes ks ary) = ary"
proof (induction ks arbitrary: ary)
  case Nil
  then show ?case by simp
next
  case (Cons k ks)
  have "length (drop k ary) \<le> sum_list ks"
    using Cons.prems by simp
  then have "concat (split_sizes ks (drop k ary)) = drop k ary"
    by (rule Cons.IH)
  then show ?case by simp
qed

lemma split_sizes_map: "split_sizes ks (map f ary) = map (map f) (split_sizes ks ary)"
  by (induction ks arbitrary: ary) (simp_all add: take_map drop_map)

lemma array_split_sizes:
  assumes "0 < sections"
  shows "sum_list (replicate (n mod sections) (n div sections + 1)
            @ replicate (sections - n mod sections) (n div sections)) = n"
proof -
  have le: "n mod sections \<le> sections"
    using assms by (simp add: less_imp_le)
  have "sum_list (replicate (n mod sections) (n div sections + 1)
            @ replicate (sections - n mod sections) (n div sections))
        = n mod sections * (n div sections + 1) + (sections - n mod sections) * (n div sections)"
    by (simp add: sum_list_replicate)
  also have "\<dots> = n mod sections + (n mod sections + (sections - n mod sections)) * (n div sections)"
    by (simp add: algebra_simps)
  also have "\<dots> = n mod sections + sections * (n div sections)"
    using le by simp
  also have "\<dots> = n"
    by simp
  finally show ?thesis .
qed

lemma array_split_length: "0 < sections \<Longrightarrow> length (array_split ary sections) = sections"
proof -
  assume "0 < sections"
  then have "length ary mod sections \<le> sections"
    by (simp add: less_imp_le)
  then show ?thesis
    by (simp add: array_split_def Let_def split_sizes_length)
qed

lemma array_split_concat:
  "0 < sections \<Longrightarrow> concat (array_split ary sections) = ary"
  unfolding array_split_def Let_def
  by (rule split_sizes_concat) (simp only: array_split_sizes)

lemma array_split_rows:
  "0 < sections \<Longrightarrow> sum_list (map length (array_split ary sections)) = length ary"
  using array_split_concat [of sections ary] by (metis length_concat)

lemma array_split_map: "array_split (map f ary) sections = map (map f) (array_split ary sections)"
  by (simp add: array_split_def Let_def split_sizes_map)

lemma array_split_positions:
  "array_split ary sections = map (map ((!) ary)) (array_split [0..<length ary] sections)"
proof -
  have "array_split (map ((!) ary) [0..<length ary]) sections
      = map (map ((!) ary)) (array_split [0..<length ary] sections)"
    by (rule array_split_map)
  then show ?thesis
    by (simp add: map_nth)
qed

lemma array_split_in_range:
  assumes "0 < sections" and "piece \<in> set (array_split [0..<n] sections)" and "j \<in> set piece"
  shows "j < n"
proof -
  have "j \<in> set (concat (array_split [0..<n] sections))"
    using assms(2,3) by auto
  then show ?thesis
    using assms(1) by (simp add: array_split_concat)
qed

text \<open>The sum of a column of a piece skips the absent cells.\<close>

lemma col_sum_cells:
  "col_sum col = sum_list (map (\<lambda>c. case c of None \<Rightarrow> 0 | Some v \<Rightarrow> v) col)"
  by (induction col) (auto simp: col_sum_def present_def map_filter_def split: option.splits)


lemma col_sum_positions:
  assumes "length (signed_fn close 1) = length close" and "length close = length volume"
    and "\<forall>j\<in>set js. j < length close"
  shows "col_sum (map (fst \<circ> snd) (map ((!) (vp_setup signed_fn close volume)) js))
           = (\<Sum>j\<leftarrow>js. pos_share (signed_fn close 1) volume j)"
    and "col_sum (map (snd \<circ> snd) (map ((!) (vp_setup signed_fn close volume)) js))
           = (\<Sum>j\<leftarrow>js. neg_share (signed_fn close 1) volume j)"
proof -
  let ?rows = "vp_setup signed_fn close volume"
  let ?s = "signed_fn close 1"
  have row: "?rows ! j =
     (Some (close ! j),
      if 0 < ?s ! j then Some (?s ! j * volume ! j) else None,
      if ?s ! j < 0 then Some (?s ! j * - volume ! j) else None)" if "j \<in> set js" for j
    using assms that by (intro vp_setup_nth) simp_all
  show "col_sum (map (fst \<circ> snd) (map ((!) ?rows) js)) = (\<Sum>j\<leftarrow>js. pos_share ?s volume j)"
    unfolding col_sum_cells map_map
    by (rule arg_cong [where f = sum_list], rule map_cong [OF refl]) (simp add: row pos_share_def)
  show "col_sum (map (snd \<circ> snd) (map ((!) ?rows) js)) = (\<Sum>j\<leftarrow>js. neg_share ?s volume j)"
    unfolding col_sum_cells map_map
    by (rule arg_cong [where f = sum_list], rule map_cong [OF refl]) (simp add: row neg_share_def)
qed

lemma vp_range_positions:
  assumes "length (signed_fn close 1) = length close" and "length close = length volume"
    and "\<forall>j\<in>set js. j < length close"
  shows "pos_volume (vp_range (map ((!) (vp_setup signed_fn close volume)) js))
           = (\<Sum>j\<leftarrow>js. pos_share (signed_fn close 1) volume j)"
    and "neg_volume (vp_range (map ((!) (vp_setup signed_fn close volume)) js))
           = (\<Sum>j\<leftarrow>js. neg_share (signed_fn close 1) volume j)"
    and "total_volume (vp_range (map ((!) (vp_setup signed_fn close volume)) js))
           = (\<Sum>j\<leftarrow>js. pos_share (signed_fn close 1) volume j + neg_share (signed_fn close 1) volume j)"
  using col_sum_positions [where signed_fn = signed_fn, OF assms]
  by (simp_all add: vp_range_def bucket_row_def sum_list_addf)

text \<open>
  The chronological table, bucket by bucket: the positive and the negative volume of a
  bucket are the shares of its rows, and all buckets together hold the volume of every
  row times the absolute value of its signed price.
\<close>

lemma shares_abs: "pos_share s volume j + neg_share s volume j = \<bar>s ! j\<bar> * volume ! j"
  by (simp add: pos_share_def neg_share_def)

lemma vp_chronological_table:
  assumes "length (signed_fn close 1) = length close" and "length close = length volume"
    and "0 < w"
  shows "vp signed_fn pd_cut (Some close) (Some volume) (Some w) False
           = Some (map vp_range (array_split (vp_setup signed_fn close volume) (nat w)))"
    and "map pos_volume (map vp_range (array_split (vp_setup signed_fn close volume) (nat w)))
           = map (\<lambda>js. \<Sum>j\<leftarrow>js. pos_share (signed_fn close 1) volume j)
               (array_split [0..<length close] (nat w))"
    and "map neg_volume (map vp_range (array_split (vp_setup signed_fn close volume) (nat w)))
           = map (\<lambda>js. \<Sum>j\<leftarrow>js. neg_share (signed_fn close 1) volume j)
               (array_split [0..<length close] (nat w))"
    and "map total_volume (map vp_range (array_split (vp_setup signed_fn close volume) (nat w)))
           = map (\<lambda>js. \<Sum>j\<leftarrow>js. pos_share (signed_fn close 1) volume j + neg_share (signed_fn close 1) volume j)
               (array_split [0..<length close] (nat w))"
proof -
  let ?rows = "vp_setup signed_fn close volume"
  have w: "0 < nat w"
    using assms(3) by simp
  have n: "length ?rows = length close"
    using assms(1,2) by (rule vp_setup_length)
  have pieces: "array_split ?rows (nat w)
      = map (map ((!) ?rows)) (array_split [0..<length close] (nat w))"
    using array_split_positions [of ?rows "nat w"] by (simp only: n)
  have inside: "\<forall>j\<in>set js. j < length close"
    if "js \<in> set (array_split [0..<length close] (nat w))" for js
    using array_split_in_range [OF w that] by blast
  show "vp signed_fn pd_cut (Some close) (Some volume) (Some w) False = Some (map vp_range (array_split ?rows (nat w)))"
    using assms(3) by (simp add: vp_def Let_def)
  show "map pos_volume (map vp_range (array_split ?rows (nat w)))
           = map (\<lambda>js. \<Sum>j\<leftarrow>js. pos_share (signed_fn close 1) volume j)
               (array_split [0..<length close] (nat w))"
    unfolding pieces map_map
    by (rule map_cong [OF refl]) (use assms(1,2) inside in \<open>simp add: vp_range_positions(1)\<close>)
  show "map neg_volume (map vp_range (array_split ?rows (nat w)))
           = map (\<lambda>js. \<Sum>j\<leftarrow>js. neg_share (signed_fn close 1) volume j)
               (array_split [0..<length close] (nat w))"
    unfolding pieces map_map
    by (rule map_cong [OF refl]) (use assms(1,2) inside in \<open>simp add: vp_range_positions(2)\<close>)
  show "map total_volume (map vp_range (array_split ?rows (nat w)))
           = map (\<lambda>js. \<Sum>j\<leftarrow>js. pos_share (signed_fn close 1) volume j + neg_share (signed_fn close 1) volume j)
               (array_split [0..<length close] (nat w))"
    unfolding pieces map_map
    by (rule map_cong [OF refl]) (use assms(1,2) inside in \<open>simp add: vp_range_positions(3)\<close>)
qed

lemma sum_list_pieces:
  "sum_list (map f (concat pieces)) = sum_list (map (\<lambda>js. sum_list (map f js)) pieces)"
  by (induction pieces) simp_all

lemma vp_chronological_volume:
  assumes "length (signed_fn close 1) = length close" and "length close = length volume"
    and "0 < w"
  shows "sum_list (map total_volume (map vp_range (array_split (vp_setup signed_fn close volume) (nat w))))
           = (\<Sum>j\<leftarrow>[0..<length close]. \<bar>signed_fn close 1 ! j\<bar> * volume ! j)"
proof -
  let ?share = "\<lambda>j. pos_share (signed_fn close 1) volume j + neg_share (signed_fn close 1) volume j"
  have w: "0 < nat w"
    using assms(3) by simp
  have "sum_list (map total_volume (map vp_range (array_split (vp_setup signed_fn close volume) (nat w))))
      = sum_list (map (\<lambda>js. sum_list (map ?share js)) (array_split [0..<length close] (nat w)))"
    using assms by (simp only: vp_chronological_table(4))
  also have "\<dots> = sum_list (map ?share (concat (array_split [0..<length close] (nat w))))"
    by (simp only: sum_list_pieces)
  also have "\<dots> = sum_list (map ?share [0..<length close])"
    by (simp only: array_split_concat [OF w])
  also have "\<dots> = (\<Sum>j\<leftarrow>[0..<length close]. \<bar>signed_fn close 1 ! j\<bar> * volume ! j)"
    by (simp only: shares_abs)
  finally show ?thesis .
qed

lemma bucket_parts_total:
  "(\<Sum>b\<leftarrow>map vp_range pieces. pos_volume b + neg_volume b)
     = sum_list (map total_volume (map vp_range pieces))"
  by (induction pieces) (simp_all add: vp_range_def bucket_row_def)


text \<open>The signed prices of Section 4.4: one for every row, each \<open>1\<close> or \<open>-1\<close>.\<close>

lemma signed_series_length: "length (signed_series flat s init) = length s"
  by (cases s) (simp_all add: signed_series_def)

lemma signed_series_nth:
  "i < length s \<Longrightarrow>
   signed_series flat s init ! i =
     (if i = 0 then init
      else if s ! (i - 1) < s ! i then 1 else if s ! i < s ! (i - 1) then - 1 else flat)"
proof (cases s)
  case Nil
  then show "i < length s \<Longrightarrow> ?thesis" by simp
next
  case (Cons x later)
  assume "i < length s"
  then show ?thesis
    using Cons by (cases i) (simp_all add: signed_series_def)
qed

lemma signed_series_unit:
  "flat = 1 \<or> flat = - 1 \<Longrightarrow> i < length s \<Longrightarrow> \<bar>signed_series flat s 1 ! i\<bar> = 1"
  by (auto simp: signed_series_nth)

text \<open>
  C5. For a close and a volume Series of one length and a positive width \<open>w\<close>, with the
  signed prices of Section 4.4 (a flat row takes the default sign, \<open>1\<close> or \<open>-1\<close>), the
  chronological volume profile is a table of exactly \<open>w\<close> buckets, one for every piece
  of the split; the row counts of the pieces add up to the number of input rows; and the
  positive and negative volume sums of all buckets together, like their total volumes,
  add up to the whole input volume.
\<close>

theorem vp_chronological_buckets:
  assumes "length close = length volume" and "0 < w" and "flat = 1 \<or> flat = - 1"
  shows "\<exists>table. vp (signed_series flat) pd_cut (Some close) (Some volume) (Some w) False = Some table
      \<and> table = map vp_range (array_split (vp_setup (signed_series flat) close volume) (nat w))
      \<and> length table = nat w
      \<and> sum_list (map length (array_split (vp_setup (signed_series flat) close volume) (nat w)))
            = length close
      \<and> (\<Sum>b\<leftarrow>table. pos_volume b + neg_volume b) = sum_list volume
      \<and> (\<Sum>b\<leftarrow>table. total_volume b) = sum_list volume"
proof -
  let ?f = "signed_series flat"
  let ?pieces = "array_split (vp_setup ?f close volume) (nat w)"
  let ?table = "map vp_range ?pieces"
  have s: "length (?f close 1) = length close"
    by (rule signed_series_length)
  have w: "0 < nat w"
    using assms(2) by simp
  have run: "vp ?f pd_cut (Some close) (Some volume) (Some w) False = Some ?table"
    using s assms(1,2) by (rule vp_chronological_table(1))
  have count: "length ?table = nat w"
    using w by (simp add: array_split_length)
  have rows: "sum_list (map length ?pieces) = length close"
    using w s assms(1) by (simp add: array_split_rows vp_setup_length)
  have "sum_list (map total_volume ?table)
      = (\<Sum>j\<leftarrow>[0..<length close]. \<bar>?f close 1 ! j\<bar> * volume ! j)"
    using s assms(1,2) by (rule vp_chronological_volume)
  also have "\<dots> = (\<Sum>j\<leftarrow>[0..<length close]. volume ! j)"
    by (rule arg_cong [where f = sum_list], rule map_cong [OF refl])
      (simp add: signed_series_unit [OF assms(3)])
  also have "\<dots> = sum_list volume"
    using assms(1) by (simp add: map_nth)
  finally have total: "(\<Sum>b\<leftarrow>?table. total_volume b) = sum_list volume" .
  then have parts: "(\<Sum>b\<leftarrow>?table. pos_volume b + neg_volume b) = sum_list volume"
    by (simp only: bucket_parts_total)
  from run count rows total parts show ?thesis
    by blast
qed

text \<open>
  Four rows in two buckets, row \<open>2\<close> flat: the buckets hold the whole volume \<open>100\<close>.
\<close>

theorem vp_chronological_buckets_witness:
  "length [1, 2, 2, 1 :: real] = length [10, 20, 30, 40 :: real] \<and> (0 :: int) < 2
   \<and> ((1 :: real) = 1 \<or> (1 :: real) = - 1)
   \<and> (\<exists>table. vp (signed_series 1) (\<lambda>col width. ([], [])) (Some [1, 2, 2, 1])
                    (Some [10, 20, 30, 40]) (Some 2) False = Some table
          \<and> length table = 2 \<and> (\<Sum>b\<leftarrow>table. total_volume b) = 100)"
proof -
  have len: "length [1, 2, 2, 1 :: real] = length [10, 20, 30, 40 :: real]"
    by simp
  have w: "(0 :: int) < 2"
    by simp
  have flat: "(1 :: real) = 1 \<or> (1 :: real) = - 1"
    by simp
  from vp_chronological_buckets [OF len w flat, of "\<lambda>col width. ([], [])"]
  obtain table where
    "vp (signed_series 1) (\<lambda>col width. ([], [])) (Some [1, 2, 2, 1]) (Some [10, 20, 30, 40]) (Some 2) False
       = Some table"
    and "length table = nat 2"
    and "(\<Sum>b\<leftarrow>table. total_volume b) = sum_list [10, 20, 30, 40 :: real]"
    by blast
  then show ?thesis
    by auto
qed












subsection \<open>Linear regression\<close>

text \<open>
  C9, as amended. For two Series of unequal lengths \<^const>\<open>linear_regression\<close> prints
  one line that names both sizes and returns \<^verbatim>\<open>None\<close>: it raises nothing, runs neither
  backend and produces no regression result.
\<close>

theorem linear_regression_mismatch:
  "length x \<noteq> length y \<Longrightarrow>
   linear_regression sklearn x y =
     ([''[X] Linear Regression X and y observations do not match: ''
         @ str_nat (length x) @ '' != '' @ str_nat (length y)], Inr None)"
  by (simp add: linear_regression_def Let_def)

text \<open>Three observations against two.\<close>

theorem linear_regression_mismatch_witness:
  "length [1, 2, 3 :: real] \<noteq> length [1, 2 :: real] \<and>
   linear_regression True [1, 2, 3] [1, 2] =
     ([''[X] Linear Regression X and y observations do not match: 3 != 2''], Inr None)"
  using linear_regression_mismatch [of "[1, 2, 3]" "[1, 2]" True] by simp

text \<open>
  C9 as stated fails: on three observations against two the call does not end in an
  exception, with either backend; its outcome is the returned \<^verbatim>\<open>None\<close>.
\<close>

theorem linear_regression_mismatch_no_exception:
  "snd (linear_regression False [1, 2, 3] [1, 2]) = Inr None
   \<and> snd (linear_regression True [1, 2, 3] [1, 2]) = Inr None"
  by (simp add: linear_regression_def Let_def)

text \<open>The two backends on \<open>x = [1, 2, 3, 4, 5]\<close>, \<open>y = [2, 4, 5, 4, 5]\<close>.\<close>

lemma dev_products_x_y: "dev_products [1, 2, 3, 4, 5] [2, 4, 5, 4, 5] = 6"
  by (simp add: dev_products_def)

lemma dev_products_x_x: "dev_products [1, 2, 3, 4, 5] [1, 2, 3, 4, 5] = 10"
  by (simp add: dev_products_def)

lemma dev_products_y_y: "dev_products [2, 4, 5, 4, 5] [2, 4, 5, 4, 5] = 6"
  by (simp add: dev_products_def)

lemma sklearn_example:
  "\<exists>s. linear_regression_sklearn [1, 2, 3, 4, 5] [2, 4, 5, 4, 5] = Inr s
     \<and> key_a s = Fin (11 / 5) \<and> key_b s = Fin (3 / 5) \<and> key_r s = Fin (3 / 5)
     \<and> key_line s = [Fin (14 / 5), Fin (17 / 5), Fin 4, Fin (23 / 5), Fin (26 / 5)]"
  by (simp add: linear_regression_sklearn_def sk_fit_def sk_score_def Let_def power2_eq_square
      dev_products_x_y dev_products_x_x dev_products_y_y)

lemma pearson_quotient: "3 / (2 * sqrt (5 / 2) * sqrt (3 / 2)) = sqrt (3 / 5)"
proof (rule sym, rule real_sqrt_unique)
  show "(3 / (2 * sqrt (5 / 2) * sqrt (3 / 2)))\<^sup>2 = 3 / 5"
    by (simp add: power_divide power_mult_distrib)
  show "0 \<le> 3 / (2 * sqrt (5 / 2) * sqrt (3 / 2))"
    by simp
qed

lemma npCorrcoef_example: "npCorrcoef [1, 2, 3, 4, 5] [2, 4, 5, 4, 5] = Fin (sqrt (3 / 5))"
proof -
  have "sqrt (3 / 5) \<le> 1"
    by simp
  moreover have "- 1 \<le> sqrt (3 / 5)"
    by (rule order_trans [of _ 0]) simp_all
  ultimately show ?thesis
    by (simp add: npCorrcoef_def Let_def np_clip_def pearson_quotient
        dev_products_x_y dev_products_x_x dev_products_y_y)
qed

lemma sqrt_three_fifths: "sqrt (3 / 5) \<noteq> 3 / 5"
proof
  assume eq: "sqrt (3 / 5) = 3 / 5"
  have "(sqrt (3 / 5))\<^sup>2 = 3 / 5"
    by simp
  then have "(3 / 5 :: real)\<^sup>2 = 3 / 5"
    by (simp only: eq)
  then show False
    by (simp add: power2_eq_square)
qed

lemma numpy_example:
  "key_a (linear_regression_np [1, 2, 3, 4, 5] [2, 4, 5, 4, 5]) = Fin (11 / 5)
   \<and> key_b (linear_regression_np [1, 2, 3, 4, 5] [2, 4, 5, 4, 5]) = Fin (3 / 5)
   \<and> key_r (linear_regression_np [1, 2, 3, 4, 5] [2, 4, 5, 4, 5]) = Fin (sqrt (3 / 5))
   \<and> key_line (linear_regression_np [1, 2, 3, 4, 5] [2, 4, 5, 4, 5])
       = [Fin (14 / 5), Fin (17 / 5), Fin 4, Fin (23 / 5), Fin (26 / 5)]"
  by (simp add: linear_regression_np_def Let_def npCorrcoef_example series_mean_def np_sub_def)

text \<open>
  C1, at a failing input. On the spec's own example both backends return a result, with
  the same intercept \<open>11/5\<close>, slope \<open>3/5\<close> and fitted line; but under the key \<^verbatim>\<open>r\<close>
  the scikit-learn backend stores \<^verbatim>\<open>lr.score\<close>, the coefficient of determination
  \<open>3/5\<close>, where the numpy backend stores the correlation \<open>sqrt (3/5)\<close>. The two differ
  by more than \<open>0.17\<close>, in exact arithmetic.
\<close>

theorem regression_backends_differ_in_r:
  "\<exists>s n. linear_regression True [1, 2, 3, 4, 5] [2, 4, 5, 4, 5] = ([], Inr (Some s))
     \<and> linear_regression False [1, 2, 3, 4, 5] [2, 4, 5, 4, 5] = ([], Inr (Some n))
     \<and> key_a s = key_a n \<and> key_b s = key_b n \<and> key_line s = key_line n
     \<and> key_r s = Fin (3 / 5) \<and> key_r n = Fin (sqrt (3 / 5)) \<and> key_r s \<noteq> key_r n"
proof -
  from sklearn_example obtain s where
    s: "linear_regression_sklearn [1, 2, 3, 4, 5] [2, 4, 5, 4, 5] = Inr s"
      "key_a s = Fin (11 / 5)" "key_b s = Fin (3 / 5)" "key_r s = Fin (3 / 5)"
      "key_line s = [Fin (14 / 5), Fin (17 / 5), Fin 4, Fin (23 / 5), Fin (26 / 5)]"
    by blast
  have "linear_regression True [1, 2, 3, 4, 5] [2, 4, 5, 4, 5] = ([], Inr (Some s))"
    by (simp add: linear_regression_def Let_def s(1))
  moreover have "linear_regression False [1, 2, 3, 4, 5] [2, 4, 5, 4, 5]
      = ([], Inr (Some (linear_regression_np [1, 2, 3, 4, 5] [2, 4, 5, 4, 5])))"
    by (simp add: linear_regression_def Let_def)
  ultimately show ?thesis
    using s(2-5) numpy_example sqrt_three_fifths
    by (intro exI [of _ s] exI [of _ "linear_regression_np [1, 2, 3, 4, 5] [2, 4, 5, 4, 5]"]) simp
qed

subsection \<open>The DataFrame extension: column lookup\<close>

text \<open>
  The positions that pass a test, in order, start with the position of the first
  element that passes it.
\<close>

lemma upt_shift: "[0..<Suc n] = 0 # map Suc [0..<n]"
  by (simp add: upt_conv_Cons map_Suc_upt del: upt_Suc)

lemma first_index_find:
  "(case filter (\<lambda>i. P (xs ! i)) [0..<length xs] of [] \<Rightarrow> None | i # rest \<Rightarrow> Some (xs ! i)) = find P xs"
proof (induction xs)
  case Nil
  then show ?case by simp
next
  case (Cons x xs)
  have unfold: "filter (\<lambda>i. P ((x # xs) ! i)) [0..<Suc (length xs)]
      = (if P x then [0] else []) @ map Suc (filter (\<lambda>i. P (xs ! i)) [0..<length xs])"
    by (simp add: upt_shift filter_map comp_def del: upt_Suc)
  show ?case
  proof (cases "P x")
    case True
    then show ?thesis by (simp add: unfold del: upt_Suc)
  next
    case False
    then show ?thesis
      using Cons.IH by (simp add: unfold del: upt_Suc split: list.splits)
  qed
qed

lemma match_positions:
  "filter ((!) (map test (columns df))) [0..<length (map test (columns df))]
     = filter (\<lambda>i. (\<lambda>(c, cells). test c) (df_columns df ! i)) [0..<length (df_columns df)]"
  unfolding length_map columns_def
  by (rule filter_cong) (auto split: prod.splits)

text \<open>
  What \<^verbatim>\<open>_get_column\<close> does with the outcome of the match: the first matching column,
  or the printed line and \<^verbatim>\<open>None\<close>.
\<close>

lemma first_match_or_message:
  "(let match = filter (\<lambda>i. map test (columns df) ! i) [0..<length (map test (columns df))]
    in if match \<noteq> [] then ([], Inr (Some (iloc_column df (hd match))))
       else ([not_found name df], Inr None))
   = (case find (\<lambda>(c, cells). test c) (df_columns df) of
        Some (c, cells) \<Rightarrow> ([], Inr (Some \<lparr>s_name = c, s_index = df_index df, s_values = cells\<rparr>))
      | None \<Rightarrow> ([not_found name df], Inr None))"
proof -
  let ?P = "\<lambda>(c, cells). test c"
  let ?match = "filter (\<lambda>i. ?P (df_columns df ! i)) [0..<length (df_columns df)]"
  have found: "(case ?match of [] \<Rightarrow> None | i # rest \<Rightarrow> Some (df_columns df ! i))
      = find ?P (df_columns df)"
    by (rule first_index_find)
  show ?thesis
  proof (cases ?match)
    case Nil
    with found show ?thesis
      by (simp only: match_positions Let_def) simp
  next
    case (Cons i rest)
    with found have "find ?P (df_columns df) = Some (df_columns df ! i)" by simp
    with Cons show ?thesis
      by (simp only: match_positions Let_def) (simp add: iloc_column_def split: prod.splits)
  qed
qed

text \<open>
  C6, as amended. For a DataFrame and a string that is not among its column names (and
  a default name), \<^verbatim>\<open>_get_column\<close> matches the string as a regular expression, the case
  of letters ignored, against the start of every column name. A string of letters, digits
  and underscores matches the names that start with it up to the case of the letters; for
  any other string the regular expression decides, and a string that is no regular
  expression raises \<^verbatim>\<open>re.error\<close> to the caller. When at least one name matches, the
  first matching column, in column order, is returned and nothing is printed, also when
  several match; when none matches, the line naming the string and the available columns
  is printed and \<^verbatim>\<open>None\<close> is returned, with no exception.
\<close>

theorem get_column_fuzzy_match:
  assumes "name \<notin> set (columns df)"
  shows "ta_get_column re_compile (Bound (Some df)) (ArgStr name) (Some d) =
     (case (if list_all word_char name
            then Inr (\<lambda>c. take (length name) (lower c) = lower name)
            else re_compile name) of
        Inl e \<Rightarrow> ([], Inl e)
      | Inr test \<Rightarrow>
          (case find (\<lambda>(c, cells). test c) (df_columns df) of
             Some (c, cells) \<Rightarrow> ([], Inr (Some \<lparr>s_name = c, s_index = df_index df, s_values = cells\<rparr>))
           | None \<Rightarrow> ([not_found name df], Inr None)))"
proof (cases "list_all word_char name")
  case True
  have test: "letters_match name = (\<lambda>c. take (length name) (lower c) = lower name)"
    by (rule ext) (simp add: letters_match_def)
  have "ta_get_column re_compile (Bound (Some df)) (ArgStr name) (Some d)
      = (let match = filter (\<lambda>i. map (letters_match name) (columns df) ! i)
                       [0..<length (map (letters_match name) (columns df))]
         in if match \<noteq> [] then ([], Inr (Some (iloc_column df (hd match))))
            else ([not_found name df], Inr None))"
    using assms True by (simp add: ta_get_column_def str_match_def del: upt_Suc)
  then show ?thesis
    using True by (simp only: first_match_or_message test if_True sum.case)
next
  case False
  show ?thesis
  proof (cases "re_compile name")
    case (Inl e)
    then show ?thesis
      using assms False by (simp add: ta_get_column_def str_match_def)
  next
    case (Inr test)
    have "ta_get_column re_compile (Bound (Some df)) (ArgStr name) (Some d)
        = (let match = filter (\<lambda>i. map test (columns df) ! i) [0..<length (map test (columns df))]
           in if match \<noteq> [] then ([], Inr (Some (iloc_column df (hd match))))
              else ([not_found name df], Inr None))"
      using assms False Inr by (simp add: ta_get_column_def str_match_def del: upt_Suc)
    then show ?thesis
      using False Inr by (simp only: first_match_or_message if_False sum.case)
  qed
qed

text \<open>
  The example of Section 8: \<open>close\<close> resolves to \<open>Close\<close>, and the absent
  \<open>Volume\<close> prints the message and yields \<^verbatim>\<open>None\<close>. The name \<open>(\<close> is no regular
  expression: the exception of \<^verbatim>\<open>re\<close> is the outcome.
\<close>

theorem get_column_fuzzy_match_witness:
  "''close'' \<notin> set (columns \<lparr>df_index = [0, 1],
        df_columns = [(''Open'', [Some 1, Some 2]), (''Close'', [Some 3, Some 4])]\<rparr>)
   \<and> ta_get_column (\<lambda>pat. Inl ReError)
        (Bound (Some \<lparr>df_index = [0, 1],
                       df_columns = [(''Open'', [Some 1, Some 2]), (''Close'', [Some 3, Some 4])]\<rparr>))
        (ArgStr ''close'') (Some ''close'')
      = ([], Inr (Some \<lparr>s_name = ''Close'', s_index = [0, 1], s_values = [Some 3, Some 4]\<rparr>))
   \<and> ''Volume'' \<notin> set (columns \<lparr>df_index = [0, 1],
        df_columns = [(''Open'', [Some 1, Some 2]), (''Close'', [Some 3, Some 4])]\<rparr>)
   \<and> ta_get_column (\<lambda>pat. Inl ReError)
        (Bound (Some \<lparr>df_index = [0, 1],
                       df_columns = [(''Open'', [Some 1, Some 2]), (''Close'', [Some 3, Some 4])]\<rparr>))
        (ArgStr ''Volume'') (Some ''volume'')
      = ([''[X] Ooops!!!: It'' @ [CHR 0x27] @ ''s True, the series '' @ [CHR 0x27] @ ''Volume''
            @ [CHR 0x27] @ '' not in Open, Close''], Inr None)
   \<and> ''('' \<notin> set (columns \<lparr>df_index = [0, 1],
        df_columns = [(''Open'', [Some 1, Some 2]), (''Close'', [Some 3, Some 4])]\<rparr>)
   \<and> ta_get_column (\<lambda>pat. Inl ReError)
        (Bound (Some \<lparr>df_index = [0, 1],
                       df_columns = [(''Open'', [Some 1, Some 2]), (''Close'', [Some 3, Some 4])]\<rparr>))
        (ArgStr ''('') (Some ''close'')
      = ([], Inl ReError)"
proof -
  let ?df = "\<lparr>df_index = [0, 1],
      df_columns = [(''Open'', [Some 1, Some 2]), (''Close'', [Some 3, Some 4])]\<rparr>"
  have absent: "''close'' \<notin> set (columns ?df)" "''Volume'' \<notin> set (columns ?df)"
      "''('' \<notin> set (columns ?df)"
    by (simp_all add: columns_def)
  show ?thesis
    using get_column_fuzzy_match [OF absent(1), of "\<lambda>pat. Inl ReError" "''close''"]
      get_column_fuzzy_match [OF absent(2), of "\<lambda>pat. Inl ReError" "''volume''"]
      get_column_fuzzy_match [OF absent(3), of "\<lambda>pat. Inl ReError" "''close''"] absent
    by (simp add: word_char_def lower_def not_found_def join_comma_def columns_def)
qed

text \<open>
  C6 as stated fails: \<open>close\<close> matches both \<open>Close\<close> and \<open>Close_adj\<close>, and the
  ambiguous request is answered with the column \<open>Close\<close>, with no message. The string
  has no special character, so that \<^verbatim>\<open>re\<close> plays no part.
\<close>

theorem get_column_ambiguous_returns_first:
  "ta_get_column (\<lambda>pat. Inl ReError)
     (Bound (Some \<lparr>df_index = [0, 1],
                    df_columns = [(''Close'', [Some 1, Some 2]), (''Close_adj'', [Some 3, Some 4])]\<rparr>))
     (ArgStr ''close'') (Some ''close'')
   = ([], Inr (Some \<lparr>s_name = ''Close'', s_index = [0, 1], s_values = [Some 1, Some 2]\<rparr>))"
  by (simp add: ta_get_column_def str_match_def word_char_def columns_def letters_match_def
      lower_def iloc_column_def Let_def)

subsection \<open>The DataFrame extension: dispatch\<close>

text \<open>An unknown indicator name makes the body of \<^verbatim>\<open>__call__\<close> raise.\<close>

lemma call_unknown_kind:
  "getattr (lower k) = None \<Longrightarrow>
   ta_call_body getattr elapsed self (PyStr k) alias timed kwargs = (Inl AttributeError, self)"
  by (simp add: ta_call_body_def call_attribute_def)

lemma help_missing:
  "getattr ''help'' = None \<Longrightarrow> ta_help getattr self = (Inl AttributeError, self)"
  by (simp add: ta_help_def call_attribute_def)

text \<open>
  C7, where it fails. The class of \<^verbatim>\<open>core.py\<close> defines no attribute \<^verbatim>\<open>help\<close>. Then
  whenever the body of \<^verbatim>\<open>__call__\<close> raises an exception \<open>e\<close>, the handler's own
  \<^verbatim>\<open>self.help()\<close> raises \<^verbatim>\<open>AttributeError\<close>, and that exception reaches the caller.
\<close>

theorem ta_call_exception_escapes:
  assumes "getattr ''help'' = None"
    and "fst (ta_call_body getattr elapsed self kind alias timed kwargs) = Inl e"
  shows "fst (ta_call getattr elapsed self kind alias timed kwargs) = Inl AttributeError"
proof -
  obtain self' where "ta_call_body getattr elapsed self kind alias timed kwargs = (Inl e, self')"
    using assms(2) by (cases "ta_call_body getattr elapsed self kind alias timed kwargs") simp
  then show ?thesis
    using assms(1) by (simp add: ta_call_def help_missing)
qed

text \<open>An accessor whose only indicator \<open>sma\<close> raises \<^verbatim>\<open>KeyError\<close>.\<close>

theorem ta_call_exception_escapes_witness:
  "(\<lambda>name. if name = ''sma'' then Some (Callable (\<lambda>kw self. (Inl KeyError, self))) else None) ''help'' = None
   \<and> fst (ta_call_body
          (\<lambda>name. if name = ''sma'' then Some (Callable (\<lambda>kw self. (Inl KeyError, self))) else None)
          0 Unset (PyStr ''SMA'') None False (\<lambda>k. None)) = Inl KeyError
   \<and> fst (ta_call
          (\<lambda>name. if name = ''sma'' then Some (Callable (\<lambda>kw self. (Inl KeyError, self))) else None)
          0 Unset (PyStr ''SMA'') None False (\<lambda>k. None)) = Inl AttributeError"
proof -
  let ?getattr = "\<lambda>name. if name = ''sma'' then Some (Callable (\<lambda>kw self. (Inl KeyError, self))) else None"
  have no_help: "?getattr ''help'' = None"
    by simp
  have raises: "fst (ta_call_body ?getattr 0 Unset (PyStr ''SMA'') None False (\<lambda>k. None)) = Inl KeyError"
    by (simp add: ta_call_body_def call_attribute_def lower_def)
  from ta_call_exception_escapes [of ?getattr 0 Unset "PyStr ''SMA''" None False "\<lambda>k. None" KeyError]
    no_help raises
  show ?thesis
    by simp
qed

subsection \<open>The DataFrame extension: appending a result\<close>

text \<open>
  What storing a column does to the columns of a frame: the names stay, with a new name
  added at the end; every column of another name stays as it is, where it is; and every
  column of the stored name holds the stored cells.
\<close>

lemma store_column_names:
  "map fst (store_column name col cols)
     = (if name \<in> set (map fst cols) then map fst cols else map fst cols @ [name])"
  by (simp add: store_column_def comp_def case_prod_beta)

lemma store_column_other:
  "i < length cols \<Longrightarrow> fst (cols ! i) \<noteq> name \<Longrightarrow> store_column name col cols ! i = cols ! i"
  by (simp add: store_column_def nth_append case_prod_beta)

lemma store_column_member:
  "c \<noteq> name \<Longrightarrow> ((c, cells) \<in> set (store_column name col cols)) = ((c, cells) \<in> set cols)"
  by (force simp: store_column_def split: if_splits)

lemma store_column_written:
  "(name, cells) \<in> set (store_column name col cols) \<Longrightarrow> cells = col"
  by (force simp: store_column_def split: if_splits)

lemma store_column_again:
  assumes "name \<in> set (map fst cols)" and "\<forall>cells. (name, cells) \<in> set cols \<longrightarrow> cells = col"
  shows "store_column name col cols = cols"
proof -
  have "map (\<lambda>(c, old). if c = name then (c, col) else (c, old)) cols = map (\<lambda>p. p) cols"
    using assms(2) by (intro map_cong refl) auto
  then show ?thesis
    using assms(1) by (simp add: store_column_def)
qed

lemma store_column_count:
  "count_list (map fst (store_column name col cols)) c
     = (if c = name \<and> name \<notin> set (map fst cols) then 1 else count_list (map fst cols) c)"
  by (simp add: store_column_names)

text \<open>The same for one \<^verbatim>\<open>df[name] = s\<close>.\<close>

lemma setitem_result:
  "setitem df name s = Inr df' \<Longrightarrow>
   \<exists>col. reindex (df_index df) s = Inr col
     \<and> df' = df\<lparr>df_columns := store_column name col (df_columns df)\<rparr>"
  by (auto simp: setitem_def split: sum.splits)

lemma setitem_index: "setitem df name s = Inr df' \<Longrightarrow> df_index df' = df_index df"
  by (auto dest: setitem_result)

lemma setitem_columns:
  "setitem df name s = Inr df' \<Longrightarrow>
   columns df' = (if name \<in> set (columns df) then columns df else columns df @ [name])"
  by (force dest!: setitem_result simp: columns_def store_column_names)

lemma setitem_other:
  "setitem df name s = Inr df' \<Longrightarrow> i < length (df_columns df) \<Longrightarrow>
   fst (df_columns df ! i) \<noteq> name \<Longrightarrow> df_columns df' ! i = df_columns df ! i"
  by (auto dest!: setitem_result simp: store_column_other)

lemma setitem_member:
  "setitem df name s = Inr df' \<Longrightarrow> c \<noteq> name \<Longrightarrow>
   ((c, cells) \<in> set (df_columns df')) = ((c, cells) \<in> set (df_columns df))"
  by (auto dest!: setitem_result simp: store_column_member)

lemma setitem_written:
  "setitem df name s = Inr df' \<Longrightarrow> (name, cells) \<in> set (df_columns df') \<Longrightarrow>
   reindex (df_index df) s = Inr cells"
  by (auto dest!: setitem_result dest: store_column_written)

lemma setitem_count:
  "setitem df name s = Inr df' \<Longrightarrow>
   count_list (columns df') c
     = (if c = name \<and> name \<notin> set (columns df) then 1 else count_list (columns df) c)"
  by (force dest!: setitem_result simp: columns_def store_column_names)

lemma setitem_again:
  assumes "reindex (df_index df) s = Inr col" and "name \<in> set (columns df)"
    and "\<forall>cells. (name, cells) \<in> set (df_columns df) \<longrightarrow> cells = col"
  shows "setitem df name s = Inr df"
  using assms by (simp add: setitem_def columns_def store_column_again)

lemma setitem_same_index: "s_index s = df_index df \<Longrightarrow> \<exists>df'. setitem df name s = Inr df'"
  by (simp add: setitem_def reindex_def)


text \<open>The loop over the columns of a DataFrame result, whatever its outcome.\<close>

lemma append_columns_frame:
  "append_columns df idx cols = (err, df') \<Longrightarrow>
   df_index df' = df_index df
   \<and> take (length (columns df)) (columns df') = columns df
   \<and> (\<forall>i < length (df_columns df). fst (df_columns df ! i) \<notin> fst ` set cols \<longrightarrow>
          df_columns df' ! i = df_columns df ! i)
   \<and> (\<forall>c cells. c \<notin> fst ` set cols \<longrightarrow>
          ((c, cells) \<in> set (df_columns df')) = ((c, cells) \<in> set (df_columns df)))
   \<and> (\<forall>c. count_list (columns df') c
          = (if c \<in> set (columns df') \<and> c \<notin> set (columns df) then 1 else count_list (columns df) c))
   \<and> (err = None \<longrightarrow> set (columns df') = set (columns df) \<union> fst ` set cols)"
proof (induction cols arbitrary: df)
  case Nil
  then show ?case by simp
next
  case (Cons p rest)
  obtain column cells where p: "p = (column, cells)"
    by (cases p)
  let ?s = "\<lparr>s_name = column, s_index = idx, s_values = cells\<rparr>"
  show ?case
  proof (cases "setitem df column ?s")
    case (Inl e)
    with Cons.prems p show ?thesis by auto
  next
    case (Inr df1)
    with Cons.prems p have rest: "append_columns df1 idx rest = (err, df')"
      by simp
    note ih = Cons.IH [OF rest]
    have idx1: "df_index df1 = df_index df"
      using Inr by (rule setitem_index)
    have cols1: "columns df1 = (if column \<in> set (columns df) then columns df else columns df @ [column])"
      using Inr by (rule setitem_columns)
    have len1: "length (df_columns df) \<le> length (df_columns df1)"
    proof -
      have "length (columns df) \<le> length (columns df1)"
        by (simp add: cols1)
      then show ?thesis
        by (simp add: columns_def)
    qed
    have prefix: "take (length (columns df)) (columns df') = columns df"
    proof -
      have "take (length (columns df)) (take (length (columns df1)) (columns df'))
          = take (length (columns df)) (columns df1)"
        using ih by simp
      moreover have "length (columns df) \<le> length (columns df1)"
        by (simp add: cols1)
      ultimately have "take (length (columns df)) (columns df') = take (length (columns df)) (columns df1)"
        by (simp add: min_def)
      then show ?thesis
        by (simp add: cols1)
    qed
    have part1: "set (columns df) \<subseteq> set (columns df1)"
      by (auto simp: cols1)
    have part2: "set (columns df1) \<subseteq> set (columns df')"
      using ih by (metis set_take_subset)
    have "df_index df' = df_index df"
      using ih idx1 by simp
    moreover have "\<forall>i < length (df_columns df). fst (df_columns df ! i) \<notin> fst ` set (p # rest) \<longrightarrow>
        df_columns df' ! i = df_columns df ! i"
    proof (intro allI impI)
      fix i
      assume i: "i < length (df_columns df)" and other: "fst (df_columns df ! i) \<notin> fst ` set (p # rest)"
      have one: "df_columns df1 ! i = df_columns df ! i"
        using Inr i other p by (intro setitem_other) auto
      have "df_columns df' ! i = df_columns df1 ! i"
        using ih i len1 other one by auto
      with one show "df_columns df' ! i = df_columns df ! i"
        by simp
    qed
    moreover have "\<forall>c cells. c \<notin> fst ` set (p # rest) \<longrightarrow>
        ((c, cells) \<in> set (df_columns df')) = ((c, cells) \<in> set (df_columns df))"
      using ih setitem_member [OF Inr] p by auto
    moreover have "\<forall>c. count_list (columns df') c
        = (if c \<in> set (columns df') \<and> c \<notin> set (columns df) then 1 else count_list (columns df) c)"
    proof
      fix c
      have one: "count_list (columns df1) c
          = (if c = column \<and> column \<notin> set (columns df) then 1 else count_list (columns df) c)"
        using Inr by (rule setitem_count)
      have two: "count_list (columns df') c
          = (if c \<in> set (columns df') \<and> c \<notin> set (columns df1) then 1 else count_list (columns df1) c)"
        using ih by simp
      have in1: "c \<in> set (columns df1) \<longleftrightarrow> c \<in> set (columns df) \<or> c = column"
        by (auto simp: cols1)
      show "count_list (columns df') c
          = (if c \<in> set (columns df') \<and> c \<notin> set (columns df) then 1 else count_list (columns df) c)"
        using one two in1 part2 by (auto simp: count_list_0_iff)
    qed
    moreover have "err = None \<longrightarrow> set (columns df') = set (columns df) \<union> fst ` set (p # rest)"
      using ih cols1 p by auto
    ultimately show ?thesis
      using prefix by blast
  qed
qed

text \<open>
  After a loop that raised nothing, every column under a name of the result holds the
  cells of the last result column of that name, aligned to the index of the frame.
\<close>

lemma append_columns_written:
  "append_columns df idx cols = (None, df') \<Longrightarrow> map_of (rev cols) c = Some cells0 \<Longrightarrow>
   (c, cells) \<in> set (df_columns df') \<Longrightarrow>
   reindex (df_index df) \<lparr>s_name = c, s_index = idx, s_values = cells0\<rparr> = Inr cells"
proof (induction cols arbitrary: df)
  case Nil
  then show ?case by simp
next
  case (Cons p rest)
  obtain column first_cells where p: "p = (column, first_cells)"
    by (cases p)
  from Cons.prems(1) p obtain df1 where
    first: "setitem df column \<lparr>s_name = column, s_index = idx, s_values = first_cells\<rparr> = Inr df1"
    and rest: "append_columns df1 idx rest = (None, df')"
    by (auto split: sum.splits)
  have idx1: "df_index df1 = df_index df"
    using first by (rule setitem_index)
  show ?case
  proof (cases "map_of (rev rest) c")
    case (Some later)
    with Cons.prems(2) p have "later = cells0"
      by (simp add: map_add_def)
    with Cons.IH [OF rest _ Cons.prems(3)] Some idx1 show ?thesis
      by simp
  next
    case None
    with Cons.prems(2) p have here: "c = column" "cells0 = first_cells"
      by (auto simp: map_add_def split: if_splits)
    from None have "c \<notin> fst ` set rest"
      by (simp add: map_of_eq_None_iff)
    with append_columns_frame [OF rest] Cons.prems(3) have "(c, cells) \<in> set (df_columns df1)"
      by simp
    with first here show ?thesis
      by (simp add: setitem_written)
  qed
qed

text \<open>
  A loop over a frame that holds, under every name of the result, the cells the loop
  would store changes nothing; and a loop whose columns have the index of the frame
  raises nothing.
\<close>

lemma append_columns_fixed:
  "\<forall>p \<in> set cols. fst p \<in> set (columns df)
      \<and> (\<forall>cells. (fst p, cells) \<in> set (df_columns df) \<longrightarrow>
            reindex (df_index df) \<lparr>s_name = fst p, s_index = idx, s_values = snd p\<rparr> = Inr cells) \<Longrightarrow>
   append_columns df idx cols = (None, df)"
proof (induction cols)
  case Nil
  then show ?case by simp
next
  case (Cons p rest)
  obtain column cells0 where p: "p = (column, cells0)"
    by (cases p)
  let ?s = "\<lparr>s_name = column, s_index = idx, s_values = cells0\<rparr>"
  from Cons.prems p have named: "column \<in> set (columns df)"
    and held: "\<forall>cells. (column, cells) \<in> set (df_columns df) \<longrightarrow> reindex (df_index df) ?s = Inr cells"
    by auto
  from named obtain col where "(column, col) \<in> set (df_columns df)"
    by (auto simp: columns_def)
  with held have col: "reindex (df_index df) ?s = Inr col"
    by simp
  with held have "\<forall>cells. (column, cells) \<in> set (df_columns df) \<longrightarrow> cells = col"
    by auto
  with col named have "setitem df column ?s = Inr df"
    by (rule setitem_again)
  moreover have "append_columns df idx rest = (None, df)"
    using Cons.prems by (intro Cons.IH) simp
  ultimately show ?case
    using p by simp
qed

lemma append_columns_same_index:
  "idx = df_index df \<Longrightarrow> \<exists>df'. append_columns df idx cols = (None, df')"
proof (induction cols arbitrary: df)
  case Nil
  then show ?case by simp
next
  case (Cons p rest)
  obtain column cells where p: "p = (column, cells)"
    by (cases p)
  obtain df1 where first: "setitem df column \<lparr>s_name = column, s_index = idx, s_values = cells\<rparr> = Inr df1"
    using setitem_same_index [of "\<lparr>s_name = column, s_index = idx, s_values = cells\<rparr>" df column] Cons.prems
    by auto
  have "idx = df_index df1"
    using Cons.prems setitem_index [OF first] by simp
  from Cons.IH [OF this] first p show ?case
    by simp
qed

text \<open>The assignments of a DataFrame result, read as the columns of the loop.\<close>

lemma map_of_keyed:
  "map_of (map (\<lambda>(k, v). (k, f k v)) xs) k = map_option (f k) (map_of xs k)"
  by (induction xs) auto

lemma result_columns_frame:
  "fst ` set (result_columns (RFrame r)) = fst ` set (df_columns r)"
  "map fst (result_columns (RFrame r)) = map fst (df_columns r)"
  "map_of (rev (result_columns (RFrame r))) c
     = map_option (\<lambda>cells. \<lparr>s_name = c, s_index = df_index r, s_values = cells\<rparr>)
         (map_of (rev (df_columns r)) c)"
  by (force simp: result_columns_def)
    (simp add: result_columns_def comp_def case_prod_beta,
     simp add: result_columns_def rev_map map_of_keyed)


text \<open>
  C8. With a truthy \<^verbatim>\<open>append\<close>, a DataFrame \<open>df\<close> in the accessor and a result,
  \<^verbatim>\<open>_append\<close> leaves a DataFrame \<open>df'\<close> with the same index (the row order), in which
  the columns of \<open>df\<close> stand under their names at their old positions, every column whose
  name is not a name of the result is the column it was, and no name is added twice: a
  name that \<open>df\<close> lacked stands once in \<open>df'\<close>, and any other name as often as before.
  A result that has the index of \<open>df\<close> raises nothing. When nothing was raised, the names
  of \<open>df'\<close> are the old ones and the names of the result (a Series under its name, a
  DataFrame column by column), every column of \<open>df'\<close> under a name of the result holds
  the cells of the result column of that name (the last one, should the result repeat the
  name), aligned to the index of \<open>df\<close>, and, for a result that names every column once, a
  second \<^verbatim>\<open>_append\<close> of the same result leaves \<open>df'\<close> exactly as it is: the column is
  overwritten, not added again.
\<close>

theorem ta_append_frame:
  assumes "kwargs ''append'' = Some v" and "truthy v"
    and "ta_append (Bound (Some df)) (Some res) kwargs = (err, self')"
  shows "\<exists>df'. self' = Bound (Some df')
      \<and> df_index df' = df_index df
      \<and> take (length (columns df)) (columns df') = columns df
      \<and> (\<forall>i < length (df_columns df). fst (df_columns df ! i) \<notin> fst ` set (result_columns res) \<longrightarrow>
             df_columns df' ! i = df_columns df ! i)
      \<and> (\<forall>c. count_list (columns df') c
             = (if c \<in> set (columns df') \<and> c \<notin> set (columns df) then 1
                else count_list (columns df) c))
      \<and> ((\<forall>p \<in> set (result_columns res). s_index (snd p) = df_index df) \<longrightarrow> err = None)
      \<and> (err = None \<longrightarrow> set (columns df') = set (columns df) \<union> fst ` set (result_columns res))
      \<and> (err = None \<longrightarrow>
            (\<forall>c s cells. map_of (rev (result_columns res)) c = Some s
                \<and> (c, cells) \<in> set (df_columns df') \<longrightarrow> reindex (df_index df) s = Inr cells))
      \<and> (err = None \<and> distinct (map fst (result_columns res)) \<longrightarrow>
            ta_append self' (Some res) kwargs = (None, self'))"
proof (cases res)
  case (RSeries s)
  have one: "result_columns res = [(s_name s, s)]"
    using RSeries by (simp add: result_columns_def)
  show ?thesis
  proof (cases "setitem df (s_name s) s")
    case (Inl e)
    with assms RSeries have out: "self' = Bound (Some df)" "err = Some e"
      by (simp_all add: ta_append_def)
    have differ: "s_index s \<noteq> df_index df"
      using Inl setitem_same_index [of s df "s_name s"] by auto
    have "(\<forall>p \<in> set (result_columns res). s_index (snd p) = df_index df) \<longrightarrow> err = None"
      using differ by (simp add: one)
    moreover have "\<forall>c. count_list (columns df) c
        = (if c \<in> set (columns df) \<and> c \<notin> set (columns df) then 1 else count_list (columns df) c)"
      by simp
    moreover have "err = None \<longrightarrow> set (columns df) = set (columns df) \<union> fst ` set (result_columns res)"
      and "err = None \<longrightarrow>
            (\<forall>c s cells. map_of (rev (result_columns res)) c = Some s
                \<and> (c, cells) \<in> set (df_columns df) \<longrightarrow> reindex (df_index df) s = Inr cells)"
      and "err = None \<and> distinct (map fst (result_columns res)) \<longrightarrow>
            ta_append self' (Some res) kwargs = (None, self')"
      using out(2) by simp_all
    ultimately show ?thesis
      using out(1) by (intro exI [of _ df] conjI) simp_all
  next
    case (Inr df1)
    with assms RSeries have out: "self' = Bound (Some df1)" "err = None"
      by (simp_all add: ta_append_def)
    have idx1: "df_index df1 = df_index df"
      using Inr by (rule setitem_index)
    have cols1: "columns df1
        = (if s_name s \<in> set (columns df) then columns df else columns df @ [s_name s])"
      using Inr by (rule setitem_columns)
    have written: "\<forall>cells. (s_name s, cells) \<in> set (df_columns df1) \<longrightarrow>
        reindex (df_index df) s = Inr cells"
      using Inr by (auto intro: setitem_written)
    have again: "setitem df1 (s_name s) s = Inr df1"
    proof -
      from Inr obtain col where col: "reindex (df_index df) s = Inr col"
        by (auto dest: setitem_result)
      show ?thesis
      proof (rule setitem_again)
        show "reindex (df_index df1) s = Inr col"
          using col idx1 by simp
        show "s_name s \<in> set (columns df1)"
          by (simp add: cols1)
        show "\<forall>cells. (s_name s, cells) \<in> set (df_columns df1) \<longrightarrow> cells = col"
          using written col by auto
      qed
    qed
    have "ta_append (Bound (Some df1)) (Some res) kwargs = (None, Bound (Some df1))"
      using assms(1,2) RSeries again by (simp add: ta_append_def)
    then have twice: "err = None \<and> distinct (map fst (result_columns res)) \<longrightarrow>
        ta_append self' (Some res) kwargs = (None, self')"
      by (simp add: out(1))
    have names: "err = None \<longrightarrow> set (columns df1) = set (columns df) \<union> fst ` set (result_columns res)"
      using cols1 by (auto simp: one)
    have prefix: "take (length (columns df)) (columns df1) = columns df"
      using cols1 by simp
    have other: "\<forall>i < length (df_columns df). fst (df_columns df ! i) \<notin> fst ` set (result_columns res) \<longrightarrow>
        df_columns df1 ! i = df_columns df ! i"
      using setitem_other [OF Inr] by (simp add: one)
    have count: "\<forall>c. count_list (columns df1) c
        = (if c \<in> set (columns df1) \<and> c \<notin> set (columns df) then 1 else count_list (columns df) c)"
    proof
      fix c
      show "count_list (columns df1) c
          = (if c \<in> set (columns df1) \<and> c \<notin> set (columns df) then 1 else count_list (columns df) c)"
        unfolding setitem_count [OF Inr] by (auto simp: cols1)
    qed
    have cells: "err = None \<longrightarrow>
        (\<forall>c s' cells. map_of (rev (result_columns res)) c = Some s'
          \<and> (c, cells) \<in> set (df_columns df1) \<longrightarrow> reindex (df_index df) s' = Inr cells)"
      using written by (auto simp: one split: if_splits)
    have quiet: "(\<forall>p \<in> set (result_columns res). s_index (snd p) = df_index df) \<longrightarrow> err = None"
      by (simp add: out(2))
    show ?thesis
      by (intro exI [of _ df1] conjI) (fact out(1) idx1 prefix other count quiet names cells twice)+
  qed
next
  case (RFrame r)
  obtain df1 where run: "append_columns df (df_index r) (df_columns r) = (err, df1)"
    and out: "self' = Bound (Some df1)"
    using assms RFrame by (auto simp: ta_append_def split: prod.splits)
  note frame = append_columns_frame [OF run]
  note res_names = result_columns_frame [of r]
  have idx1: "df_index df1 = df_index df"
    using frame by (rule conjunct1)
  have prefix: "take (length (columns df)) (columns df1) = columns df"
    using frame by (elim conjE)
  have other: "\<forall>i < length (df_columns df). fst (df_columns df ! i) \<notin> fst ` set (result_columns res) \<longrightarrow>
      df_columns df1 ! i = df_columns df ! i"
    unfolding RFrame res_names(1) using frame by (elim conjE)
  have count: "\<forall>c. count_list (columns df1) c
      = (if c \<in> set (columns df1) \<and> c \<notin> set (columns df) then 1 else count_list (columns df) c)"
    using frame by (elim conjE)
  have names: "err = None \<longrightarrow> set (columns df1) = set (columns df) \<union> fst ` set (result_columns res)"
    unfolding RFrame res_names(1) using frame by (elim conjE)
  have cells: "err = None \<longrightarrow>
      (\<forall>c s cells. map_of (rev (result_columns res)) c = Some s
        \<and> (c, cells) \<in> set (df_columns df1) \<longrightarrow> reindex (df_index df) s = Inr cells)"
  proof (intro impI allI, elim conjE)
    fix c s cells
    assume ok: "err = None" and last_s: "map_of (rev (result_columns res)) c = Some s"
      and held: "(c, cells) \<in> set (df_columns df1)"
    from last_s obtain cells0 where
      last: "map_of (rev (df_columns r)) c = Some cells0"
      and s: "s = \<lparr>s_name = c, s_index = df_index r, s_values = cells0\<rparr>"
      unfolding RFrame res_names(3) by auto
    from run ok have "append_columns df (df_index r) (df_columns r) = (None, df1)"
      by simp
    from append_columns_written [OF this last held] s show "reindex (df_index df) s = Inr cells"
      by simp
  qed
  have quiet: "(\<forall>p \<in> set (result_columns res). s_index (snd p) = df_index df) \<longrightarrow> err = None"
  proof
    assume same: "\<forall>p \<in> set (result_columns res). s_index (snd p) = df_index df"
    show "err = None"
    proof (cases "df_columns r")
      case Nil
      with run show ?thesis by simp
    next
      case (Cons p rest)
      obtain c cells where p: "p = (c, cells)"
        by (cases p)
      have "(c, \<lparr>s_name = c, s_index = df_index r, s_values = cells\<rparr>) \<in> set (result_columns res)"
        unfolding RFrame by (simp add: result_columns_def Cons p)
      with same have "df_index r = df_index df"
        by fastforce
      from append_columns_same_index [OF this, of "df_columns r"] run show ?thesis
        by auto
    qed
  qed
  have twice: "err = None \<and> distinct (map fst (result_columns res)) \<longrightarrow>
      ta_append self' (Some res) kwargs = (None, self')"
  proof (intro impI, elim conjE)
    assume ok: "err = None" and once: "distinct (map fst (result_columns res))"
    have unique: "distinct (map fst (df_columns r))"
      using once unfolding RFrame res_names(2) .
    have ran: "append_columns df (df_index r) (df_columns r) = (None, df1)"
      using run ok by simp
    have "append_columns df1 (df_index r) (df_columns r) = (None, df1)"
    proof (rule append_columns_fixed, intro ballI conjI allI impI)
      fix p
      assume p: "p \<in> set (df_columns r)"
      have "fst p \<in> fst ` set (df_columns r)"
        using p by (rule imageI)
      then show "fst p \<in> set (columns df1)"
        using names ok unfolding RFrame res_names(1) by simp
      fix cells
      assume held: "(fst p, cells) \<in> set (df_columns df1)"
      have "(fst p, snd p) \<in> set (rev (df_columns r))"
        using p by simp
      moreover have "distinct (map fst (rev (df_columns r)))"
        using unique by (simp add: rev_map [symmetric])
      ultimately have "map_of (rev (df_columns r)) (fst p) = Some (snd p)"
        by (simp only: map_of_eq_Some_iff)
      from append_columns_written [OF ran this held]
      show "reindex (df_index df1) \<lparr>s_name = fst p, s_index = df_index r, s_values = snd p\<rparr>
          = Inr cells"
        by (simp add: idx1)
    qed
    then show "ta_append self' (Some res) kwargs = (None, self')"
      using assms(1,2) by (simp add: ta_append_def out RFrame)
  qed
  show ?thesis
    by (intro exI [of _ df1] conjI) (fact out idx1 prefix other count quiet names cells twice)+
qed

text \<open>
  A frame that already has the column \<open>BBL_2\<close>, and a result of two columns on its
  index: \<open>BBL_2\<close> is overwritten where it stands, \<open>BBU_2\<close> is added at the end, \<open>close\<close>
  is as before, and a second call changes nothing.
\<close>

theorem ta_append_frame_witness:
  "(\<lambda>k. if k = ''append'' then Some (PyBool True) else None) ''append'' = Some (PyBool True)
   \<and> truthy (PyBool True)
   \<and> ta_append
        (Bound (Some \<lparr>df_index = [0, 1],
                       df_columns = [(''close'', [Some 1, Some 2]), (''BBL_2'', [None, None])]\<rparr>))
        (Some (RFrame \<lparr>df_index = [0, 1],
                        df_columns = [(''BBL_2'', [None, Some 1]), (''BBU_2'', [None, Some 2])]\<rparr>))
        (\<lambda>k. if k = ''append'' then Some (PyBool True) else None)
      = (None, Bound (Some \<lparr>df_index = [0, 1],
                df_columns = [(''close'', [Some 1, Some 2]), (''BBL_2'', [None, Some 1]),
                              (''BBU_2'', [None, Some 2])]\<rparr>))
   \<and> ta_append
        (Bound (Some \<lparr>df_index = [0, 1],
                df_columns = [(''close'', [Some 1, Some 2]), (''BBL_2'', [None, Some 1]),
                              (''BBU_2'', [None, Some 2])]\<rparr>))
        (Some (RFrame \<lparr>df_index = [0, 1],
                        df_columns = [(''BBL_2'', [None, Some 1]), (''BBU_2'', [None, Some 2])]\<rparr>))
        (\<lambda>k. if k = ''append'' then Some (PyBool True) else None)
      = (None, Bound (Some \<lparr>df_index = [0, 1],
                df_columns = [(''close'', [Some 1, Some 2]), (''BBL_2'', [None, Some 1]),
                              (''BBU_2'', [None, Some 2])]\<rparr>))"
proof -
  let ?kw = "\<lambda>k. if k = ''append'' then Some (PyBool True) else None"
  let ?df = "\<lparr>df_index = [0, 1],
      df_columns = [(''close'', [Some 1, Some 2]), (''BBL_2'', [None, None])]\<rparr>"
  let ?df' = "\<lparr>df_index = [0, 1],
      df_columns = [(''close'', [Some 1, Some 2]), (''BBL_2'', [None, Some 1]),
                    (''BBU_2'', [None, Some 2])]\<rparr>"
  let ?res = "RFrame \<lparr>df_index = [0, 1],
      df_columns = [(''BBL_2'', [None, Some 1]), (''BBU_2'', [None, Some 2])]\<rparr>"
  have kw: "?kw ''append'' = Some (PyBool True)"
    by simp
  have yes: "truthy (PyBool True)"
    by simp
  have run: "ta_append (Bound (Some ?df)) (Some ?res) ?kw = (None, Bound (Some ?df'))"
    by (simp add: ta_append_def setitem_def reindex_def store_column_def)
  from ta_append_frame [of ?kw "PyBool True" ?df ?res None "Bound (Some ?df')", OF kw yes run]
  have "ta_append (Bound (Some ?df')) (Some ?res) ?kw = (None, Bound (Some ?df'))"
    by (simp add: result_columns_def)
  with kw yes run show ?thesis
    by simp
qed

end
